theory Spec2Isabelle
  imports Complex_Main
begin

section \<open>Round state machine (core/state/StateMachine.ts)\<close>

text \<open>
  The class keeps a current state, a read-only table of allowed targets per state and
  two optional tables of callbacks. A callback is kept as an opaque value of type
  \<open>'h\<close>: \<open>set\<close> returns, next to the new machine, the callbacks it invoked, in
  the order of invocation. A missing table entry (\<open>allowed[s]\<close> undefined,
  \<open>onEnter?.[s]\<close> undefined) is \<open>None\<close>.
\<close>

record ('s, 'h) StateMachine =
  allowed :: "'s \<Rightarrow> 's list option"
  onEnter :: "'s \<Rightarrow> 'h option"
  onExit :: "'s \<Rightarrow> 'h option"
  state :: 's

definition can :: "'s \<Rightarrow> ('s, 'h) StateMachine \<Rightarrow> bool" where
  "can next m =
     (if next = state m then True
      else (case allowed m (state m) of
              None \<Rightarrow> False
            | Some list \<Rightarrow> List.member list next))"

definition call_hook :: "'h option \<Rightarrow> 'h list" where
  "call_hook h = (case h of None \<Rightarrow> [] | Some f \<Rightarrow> [f])"

definition set_sm :: "'s \<Rightarrow> ('s, 'h) StateMachine \<Rightarrow> ('s, 'h) StateMachine \<times> 'h list" where
  "set_sm next m =
     (if \<not> can next m then (m, [])
      else if next = state m then (m, [])
      else (let prev = state m
            in (m\<lparr>state := next\<rparr>, call_hook (onExit m prev) @ call_hook (onEnter m next))))"

text \<open>The whitelist of a state: the targets its table entry lists (none when the entry is missing).\<close>

definition whitelisted :: "('s, 'h) StateMachine \<Rightarrow> 's \<Rightarrow> 's \<Rightarrow> bool" where
  "whitelisted m s t = (case allowed m s of None \<Rightarrow> False | Some list \<Rightarrow> List.member list t)"


section \<open>Symbols, grids and the math specification\<close>

text \<open>
  \<open>SymbolId\<close> is the closed union of string literals of slot/SymbolIds.ts. A grid is
  indexed \<open>[reel][row]\<close>. JavaScript numbers are modelled as reals: sums, products and
  comparisons are exact, \<open>NaN\<close> and the infinities do not occur.
\<close>

datatype SymbolId = A | K | Q | J | T | CROWN | SKULL | PARROT | CANNON | CHEST_GOLD | COMPASS
  | WILD | SCATTER

type_synonym Grid = "SymbolId list list"

text \<open>
  Reading \<open>xs[i]\<close> beyond the end of a JavaScript array gives \<open>undefined\<close> and does
  not raise; \<open>None\<close> stands for \<open>undefined\<close>.
\<close>

definition elem_at :: "'a list \<Rightarrow> nat \<Rightarrow> 'a option" where
  "elem_at xs i = (if i < length xs then Some (xs ! i) else None)"

text \<open>\<open>grid[r]![y]\<close> for \<open>r < grid.length\<close>.\<close>

definition cell :: "Grid \<Rightarrow> nat \<Rightarrow> nat \<Rightarrow> SymbolId option" where
  "cell grid r y = (case elem_at grid r of None \<Rightarrow> None | Some col \<Rightarrow> elem_at col y)"

record EnvMathSpec =
  reels :: real
  rows :: real
  betMin :: real
  betMax :: real
  betStep :: real
  hitRate :: real
  bonusTargetFrequency :: real
  symbols :: "SymbolId list"
  weights :: "SymbolId \<Rightarrow> real"
  wildSubstitutes :: bool
  wildPaysItself :: bool
  scatterSymbol :: SymbolId
  bonusEnabled :: bool
  bonusTriggerCount :: real
  scatterPays :: bool
  scatterPay :: "nat \<Rightarrow> real option"
  paytable :: "SymbolId \<Rightarrow> (nat \<Rightarrow> real option) option"
  freeSpinsAward :: real
  freeSpinsWinMult :: real
  freeSpinsRetriggerEnabled :: bool
  freeSpinsRetriggerCount :: real
  freeSpinsRetriggerAward :: real
  bigWinThresholdXBet :: real
  rngSeed :: real
  qaForceBonus :: bool
  qaForceWin :: bool
  qaForceSymbol :: "SymbolId option"
  qaLog :: bool

section \<open>Paylines (game/paylines.ts)\<close>

record Payline =
  id_pl :: nat
  rows_pl :: "nat list"

definition PAYLINES_5X3 :: "Payline list" where
  "PAYLINES_5X3 =
     [\<lparr>id_pl = 1, rows_pl = [1, 1, 1, 1, 1]\<rparr>,
      \<lparr>id_pl = 2, rows_pl = [0, 0, 0, 0, 0]\<rparr>,
      \<lparr>id_pl = 3, rows_pl = [2, 2, 2, 2, 2]\<rparr>,
      \<lparr>id_pl = 4, rows_pl = [0, 1, 2, 1, 0]\<rparr>,
      \<lparr>id_pl = 5, rows_pl = [2, 1, 0, 1, 2]\<rparr>,
      \<lparr>id_pl = 6, rows_pl = [0, 0, 1, 0, 0]\<rparr>,
      \<lparr>id_pl = 7, rows_pl = [2, 2, 1, 2, 2]\<rparr>]"

section \<open>Payline and scatter evaluator (game/evaluators.ts)\<close>

record Position =
  reel :: nat
  row :: nat

record WinLine =
  lineId :: nat
  pathRows :: "nat list"
  fromReel :: nat
  toReel :: nat
  symbol :: SymbolId
  count :: nat
  usedWild :: bool
  amount :: real
  positions :: "Position list"

record EvaluatedSpin =
  winAmount :: real
  winLines :: "WinLine list"
  scatterCount :: nat
  scatterWinAmount :: real
  scatterPositions :: "Position list"
  heldReelsNext :: "bool list"

text \<open>\<open>Math.round\<close>: the nearest integer, a half rounded towards plus infinity.\<close>

definition Math_round :: "real \<Rightarrow> real" where
  "Math_round x = of_int \<lfloor>x + 1 / 2\<rfloor>"

text \<open>\<open>grid[0]?.length ?? 0\<close>\<close>

definition grid_rows :: "Grid \<Rightarrow> nat" where
  "grid_rows grid = (case elem_at grid 0 of None \<Rightarrow> 0 | Some col \<Rightarrow> length col)"

text \<open>The scatter count loop: the cells equal to \<open>math.scatterSymbol\<close>, reel by reel.\<close>

definition scatter_cells :: "Grid \<Rightarrow> SymbolId \<Rightarrow> Position list" where
  "scatter_cells grid sc =
     concat (map (\<lambda>r. map (\<lambda>y. \<lparr>reel = r, row = y\<rparr>)
                          (filter (\<lambda>y. cell grid r y = Some sc) [0..<grid_rows grid]))
                 [0..<length grid])"

text \<open>
  \<open>symbols[r] = grid[r]![path[r]!]!\<close> for every reel: where the path has no entry
  for the reel, or the column has no such row, the read gives \<open>undefined\<close>.
\<close>

definition line_symbols :: "Grid \<Rightarrow> nat list \<Rightarrow> SymbolId option list" where
  "line_symbols grid path =
     map (\<lambda>r. case elem_at path r of None \<Rightarrow> None | Some y \<Rightarrow> cell grid r y) [0..<length grid]"

text \<open>
  The search for the base symbol of a line that starts with WILD, over
  \<open>symbols[1..]\<close>: a literal SCATTER stops the search, the first symbol that is not
  WILD becomes the base, and a line of WILD only keeps WILD.
\<close>

fun wild_base :: "SymbolId option list \<Rightarrow> SymbolId option" where
  "wild_base [] = Some WILD"
| "wild_base (s # ss) =
     (if s = Some SCATTER then Some WILD
      else if s \<noteq> Some WILD then s
      else wild_base ss)"

text \<open>
  The counting loop over \<open>symbols\<close>, with its two accumulators \<open>count\<close> and
  \<open>usedWild\<close>; \<open>ws\<close> is \<open>math.wildSubstitutes\<close>.
\<close>

fun scan_line :: "bool \<Rightarrow> SymbolId option \<Rightarrow> SymbolId option list \<Rightarrow> nat \<Rightarrow> bool \<Rightarrow> nat \<times> bool" where
  "scan_line ws base [] n used = (n, used)"
| "scan_line ws base (s # ss) n used =
     (if s = Some SCATTER then (n, used)
      else if s = base then scan_line ws base ss (n + 1) (used \<or> (s = Some WILD \<and> base = Some WILD))
      else if ws \<and> s = Some WILD \<and> base \<noteq> Some WILD then scan_line ws base ss (n + 1) True
      else (n, used))"

text \<open>\<open>(math.paytable as any)?.[baseSym]?.[c] ?? 0\<close>; an undefined base has no entry.\<close>

definition paytable_mult :: "EnvMathSpec \<Rightarrow> SymbolId option \<Rightarrow> nat \<Rightarrow> real" where
  "paytable_mult math base c =
     (case base of
        None \<Rightarrow> 0
      | Some b \<Rightarrow> (case paytable math b of
                     None \<Rightarrow> 0
                   | Some entry \<Rightarrow> (case entry c of None \<Rightarrow> 0 | Some v \<Rightarrow> v)))"

text \<open>
  The cells pushed onto \<open>positions\<close> by a scan that matched \<open>n\<close> reels. A win line
  is recorded only with a positive pay-table entry, so with a defined base symbol; then
  every matched reel has an entry in the path.
\<close>

definition line_positions :: "nat list \<Rightarrow> nat \<Rightarrow> Position list" where
  "line_positions path n = map (\<lambda>(r, y). \<lparr>reel = r, row = y\<rparr>) (take n (zip [0..<length path] path))"

text \<open>One pass of the payline loop: the win line it pushes, if any.\<close>

definition eval_line :: "Grid \<Rightarrow> real \<Rightarrow> EnvMathSpec \<Rightarrow> Payline \<Rightarrow> WinLine option" where
  "eval_line grid bet math line =
     (let path = rows_pl line;
          syms = line_symbols grid path;
          s0 = (case elem_at syms 0 of None \<Rightarrow> None | Some s \<Rightarrow> s)
      in if s0 = Some SCATTER then None
         else
           (let base = (if s0 = Some WILD then wild_base (tl syms) else s0)
            in if s0 = Some WILD \<and> base = Some WILD \<and> \<not> wildPaysItself math then None
               else
                 (let (n, used) = scan_line (wildSubstitutes math) base syms 0 False
                  in if n \<ge> 3
                     then (let c = min 5 n;
                               mult = paytable_mult math base c;
                               amt = bet * mult
                           in (case base of
                                 None \<Rightarrow> None
                               | Some baseSym \<Rightarrow>
                                   if amt > 0
                                   then Some \<lparr>lineId = id_pl line, pathRows = path, fromReel = 0,
                                              toReel = n - 1, symbol = baseSym, count = c,
                                              usedWild = used, amount = amt,
                                              positions = line_positions path n\<rparr>
                                   else None))
                     else None)))"

text \<open>The payline loop with its accumulators \<open>winLines\<close> and \<open>winAmount\<close>.\<close>

definition payline_step :: "Grid \<Rightarrow> real \<Rightarrow> EnvMathSpec \<Rightarrow> WinLine list \<times> real \<Rightarrow> Payline \<Rightarrow> WinLine list \<times> real" where
  "payline_step grid bet math acc line =
     (case eval_line grid bet math line of
        None \<Rightarrow> acc
      | Some wl \<Rightarrow> (fst acc @ [wl], snd acc + amount wl))"

definition payline_loop :: "Grid \<Rightarrow> real \<Rightarrow> EnvMathSpec \<Rightarrow> WinLine list \<times> real" where
  "payline_loop grid bet math = foldl (payline_step grid bet math) ([], 0) PAYLINES_5X3"

text \<open>The reel-hold loop: a column with a WILD among its first \<open>rows\<close> cells.\<close>

definition held_next :: "Grid \<Rightarrow> bool list" where
  "held_next grid =
     map (\<lambda>r. list_ex (\<lambda>y. cell grid r y = Some WILD) [0..<grid_rows grid]) [0..<length grid]"

definition evaluateGrid :: "Grid \<Rightarrow> real \<Rightarrow> EnvMathSpec \<Rightarrow> bool \<Rightarrow> EvaluatedSpin" where
  "evaluateGrid grid bet math inFreeSpins =
     (let scPositions = scatter_cells grid (scatterSymbol math);
          scCount = length scPositions;
          (wls, wAmount) = payline_loop grid bet math;
          scWin = (if scatterPays math \<and> scCount \<ge> 3
                   then bet * (case scatterPay math (min 5 scCount) of None \<Rightarrow> 0 | Some v \<Rightarrow> v)
                   else 0);
          total = (wAmount + scWin) * (if inFreeSpins then freeSpinsWinMult math else 1)
      in \<lparr>winAmount = Math_round total, winLines = wls, scatterCount = scCount,
          scatterWinAmount = scWin, scatterPositions = scPositions,
          heldReelsNext = held_next grid\<rparr>)"

section \<open>Bonus and free-spin accounting (game/bonus.ts)\<close>




section \<open>Math specification resolver (game/math/EnvMathSpec.ts)\<close>

text \<open>
  The raw values the parsers accept (their parameter is typed \<open>any\<close>). Strings are
  lists of code units below 256.
\<close>

datatype JsNumber = Finite real | NaN | PosInfinity | NegInfinity

datatype EnvValue = Undefined | Null | Num JsNumber | Bool bool | Str string

definition is_digit :: "char \<Rightarrow> bool" where
  "is_digit c = List.member ''0123456789'' c"

text \<open>The white space that \<open>String.prototype.trim\<close> removes, among the code units below 256.\<close>

definition is_space :: "char \<Rightarrow> bool" where
  "is_space c = List.member [9, 10, 11, 12, 13, 32, 160] (of_char c :: nat)"

definition trim :: "string \<Rightarrow> string" where
  "trim s = rev (dropWhile is_space (rev (dropWhile is_space s)))"

text \<open>
  A match of \<open>/-?\d+(\.\d+)?/\<close> at the start of the string: an optional minus sign,
  the longest run of digits, and a fraction when a dot and at least one digit follow.
\<close>

definition digits_then_fraction :: "string \<Rightarrow> string" where
  "digits_then_fraction s =
     (let ds = takeWhile is_digit s; rest = dropWhile is_digit s
      in (case rest of
            c # r2 \<Rightarrow> (if c = CHR ''.'' \<and> takeWhile is_digit r2 \<noteq> []
                        then ds @ [c] @ takeWhile is_digit r2 else ds)
          | [] \<Rightarrow> ds))"

definition match_here :: "string \<Rightarrow> string option" where
  "match_here s =
     (case s of
        [] \<Rightarrow> None
      | c # cs \<Rightarrow>
          (if c = CHR ''-'' \<and> takeWhile is_digit cs \<noteq> [] then Some (c # digits_then_fraction cs)
           else if is_digit c then Some (digits_then_fraction s)
           else None))"

text \<open>\<open>s.match(...)\<close>: the match at the leftmost position that has one.\<close>

fun first_match :: "string \<Rightarrow> string option" where
  "first_match [] = None"
| "first_match (c # cs) =
     (case match_here (c # cs) of Some m \<Rightarrow> Some m | None \<Rightarrow> first_match cs)"

definition digit_value :: "char \<Rightarrow> nat" where
  "digit_value c = of_char c - 48"

definition digits_value :: "string \<Rightarrow> nat" where
  "digits_value ds = foldl (\<lambda>a c. 10 * a + digit_value c) 0 ds"

text \<open>
  \<open>Number(m[0])\<close> on a matched decimal literal, as an exact real. The source maps
  a literal beyond the range of a double, which \<open>Number\<close> turns into an infinity, to
  the default; the reals have no such literal.
\<close>

definition Number_of_match :: "string \<Rightarrow> real" where
  "Number_of_match m =
     (let neg = (m \<noteq> [] \<and> hd m = CHR ''-'');
          body = (if neg then tl m else m);
          ip = takeWhile is_digit body;
          fp = drop (length ip + 1) body;
          v = real (digits_value ip) + real (digits_value fp) / 10 ^ length fp
      in if neg then - v else v)"

definition num :: "EnvValue \<Rightarrow> real \<Rightarrow> real" where
  "num v def =
     (case v of
        Undefined \<Rightarrow> def
      | Null \<Rightarrow> def
      | Num n \<Rightarrow> (case n of Finite x \<Rightarrow> x | _ \<Rightarrow> def)
      | Bool b \<Rightarrow> def
      | Str str \<Rightarrow>
          (let s = trim str
           in if s = [] then def
              else (case first_match s of None \<Rightarrow> def | Some m \<Rightarrow> Number_of_match m)))"

text \<open>
  \<open>toLowerCase\<close> and \<open>toUpperCase\<close> on code units below 256, up to what a comparison
  with an ASCII word can see: the sharp s (223) becomes \<open>SS\<close> in upper case, every other
  unit beyond ASCII stays beyond ASCII.
\<close>

definition lower_char :: "char \<Rightarrow> char" where
  "lower_char c =
     (let n = (of_char c :: nat) in if 65 \<le> n \<and> n \<le> 90 then char_of (n + 32) else c)"

definition toLowerCase :: "string \<Rightarrow> string" where
  "toLowerCase s = map lower_char s"

definition upper_char :: "char \<Rightarrow> string" where
  "upper_char c =
     (let n = (of_char c :: nat)
      in if 97 \<le> n \<and> n \<le> 122 then [char_of (n - 32)]
         else if n = 223 then ''SS''
         else [c])"

definition toUpperCase :: "string \<Rightarrow> string" where
  "toUpperCase s = concat (map upper_char s)"

text \<open>
  \<open>bool\<close>: \<open>String(v)\<close> of a number is one of the four accepted words only for the
  number 1.
\<close>

definition bool_env :: "EnvValue \<Rightarrow> bool \<Rightarrow> bool" where
  "bool_env v def =
     (case v of
        Undefined \<Rightarrow> def
      | Null \<Rightarrow> def
      | Bool b \<Rightarrow> b
      | Num n \<Rightarrow> (n = Finite 1)
      | Str str \<Rightarrow>
          (if str = [] then def
           else (let s = toLowerCase (trim str)
                 in s = ''1'' \<or> s = ''true'' \<or> s = ''yes'' \<or> s = ''on'')))"

definition mapEnvSymbol :: "string \<Rightarrow> SymbolId option" where
  "mapEnvSymbol ident =
     (let u = toUpperCase ident
      in if u = ''T'' then Some T
         else if u = ''A'' then Some A
         else if u = ''K'' then Some K
         else if u = ''Q'' then Some Q
         else if u = ''J'' then Some J
         else if u = ''STAR'' then Some SCATTER
         else if u = ''SCATTER'' then Some SCATTER
         else if u = ''WILD'' then Some WILD
         else if u = ''10'' then Some T
         else if u = ''CROWN'' then Some CROWN
         else if u = ''SKULL'' then Some SKULL
         else if u = ''PARROT'' then Some PARROT
         else if u = ''CANNON'' then Some CANNON
         else if u = ''CHEST_GOLD'' then Some CHEST_GOLD
         else if u = ''COMPASS'' then Some COMPASS
         else None)"

text \<open>\<open>s.split(',')\<close>\<close>

fun split_comma :: "string \<Rightarrow> string list" where
  "split_comma [] = [[]]"
| "split_comma (c # cs) =
     (if c = CHR '','' then [] # split_comma cs
      else (case split_comma cs of p # ps \<Rightarrow> (c # p) # ps | [] \<Rightarrow> [[c]]))"

definition symList :: "EnvValue \<Rightarrow> SymbolId list \<Rightarrow> SymbolId list" where
  "symList v fallback =
     (let s = (case v of Str str \<Rightarrow> str | _ \<Rightarrow> [])
      in if s = [] then fallback
         else List.map_filter mapEnvSymbol (filter (\<lambda>x. x \<noteq> []) (map trim (split_comma s))))"

text \<open>
  \<open>import.meta.env\<close>: the variables of the environment files, each a string; a key
  that is not set reads as \<open>undefined\<close>.
\<close>

type_synonym Env = "string \<Rightarrow> string option"

definition env_get :: "Env \<Rightarrow> string \<Rightarrow> EnvValue" where
  "env_get e k = (case e k of None \<Rightarrow> Undefined | Some s \<Rightarrow> Str s)"

text \<open>\<open>a ?? b\<close>\<close>

definition nullish :: "EnvValue \<Rightarrow> EnvValue \<Rightarrow> EnvValue" where
  "nullish a b = (if a = Undefined \<or> a = Null then b else a)"

definition symbol_name :: "SymbolId \<Rightarrow> string" where
  "symbol_name s =
     (case s of A \<Rightarrow> ''A'' | K \<Rightarrow> ''K'' | Q \<Rightarrow> ''Q'' | J \<Rightarrow> ''J'' | T \<Rightarrow> ''T''
      | CROWN \<Rightarrow> ''CROWN'' | SKULL \<Rightarrow> ''SKULL'' | PARROT \<Rightarrow> ''PARROT'' | CANNON \<Rightarrow> ''CANNON''
      | CHEST_GOLD \<Rightarrow> ''CHEST_GOLD'' | COMPASS \<Rightarrow> ''COMPASS'' | WILD \<Rightarrow> ''WILD''
      | SCATTER \<Rightarrow> ''SCATTER'')"

definition pay_count_name :: "nat \<Rightarrow> string" where
  "pay_count_name c = (if c = 3 then ''3'' else if c = 4 then ''4'' else ''5'')"

definition payCounts :: "nat list" where
  "payCounts = [3, 4, 5]"

definition baseSyms :: "SymbolId list" where
  "baseSyms = [A, K, Q, J, T, CROWN, SKULL, PARROT, CANNON, CHEST_GOLD, COMPASS, WILD]"

text \<open>The table \<open>defaults\<close> of the loader, as rows \<open>(pay for 3, pay for 4, pay for 5)\<close>.\<close>

definition default_row :: "SymbolId \<Rightarrow> real \<times> real \<times> real" where
  "default_row s =
     (case s of A \<Rightarrow> (1, 3, 8) | K \<Rightarrow> (1, 3, 8) | Q \<Rightarrow> (1, 4, 10) | J \<Rightarrow> (1, 4, 10)
      | T \<Rightarrow> (2, 6, 15) | CROWN \<Rightarrow> (2, 6, 16) | SKULL \<Rightarrow> (3, 10, 25) | PARROT \<Rightarrow> (3, 10, 25)
      | CANNON \<Rightarrow> (4, 12, 30) | CHEST_GOLD \<Rightarrow> (5, 15, 40) | COMPASS \<Rightarrow> (4, 12, 30)
      | WILD \<Rightarrow> (5, 20, 100) | SCATTER \<Rightarrow> (0, 0, 0))"

definition default_pay :: "SymbolId \<Rightarrow> nat \<Rightarrow> real" where
  "default_pay s c =
     (case default_row s of (p3, p4, p5) \<Rightarrow> if c = 3 then p3 else if c = 4 then p4 else p5)"

text \<open>
  One cell of a pay table after both loops of the loader: the parsed value when the key
  is set to something other than the empty string, else the given default.
\<close>

definition pay_cell :: "EnvValue \<Rightarrow> real \<Rightarrow> real" where
  "pay_cell v dflt = (if v \<noteq> Undefined \<and> v \<noteq> Str [] then num v 0 else dflt)"

definition paytable_of_env :: "Env \<Rightarrow> SymbolId \<Rightarrow> (nat \<Rightarrow> real option) option" where
  "paytable_of_env e s =
     (if List.member baseSyms s
      then Some (\<lambda>c. if List.member payCounts c
                      then Some (pay_cell (env_get e (''PAY_'' @ symbol_name s @ ''_'' @ pay_count_name c))
                                          (default_pay s c))
                      else None)
      else None)"

definition scatterPay_of_env :: "Env \<Rightarrow> nat \<Rightarrow> real option" where
  "scatterPay_of_env e c =
     (if List.member payCounts c
      then Some (pay_cell (nullish (env_get e (''PAY_SCATTER_'' @ pay_count_name c))
                                   (env_get e (''PAY_STAR_'' @ pay_count_name c)))
                          (if c = 3 then 2 else if c = 4 then 10 else 50))
      else None)"

definition weights_of_env :: "Env \<Rightarrow> SymbolId \<Rightarrow> real" where
  "weights_of_env e s =
     (case s of
        A \<Rightarrow> num (env_get e ''W_A'') 18
      | K \<Rightarrow> num (env_get e ''W_K'') 18
      | Q \<Rightarrow> num (env_get e ''W_Q'') 16
      | J \<Rightarrow> num (env_get e ''W_J'') 16
      | T \<Rightarrow> num (env_get e ''W_T'') 16
      | CROWN \<Rightarrow> num (env_get e ''W_CROWN'') 8
      | SKULL \<Rightarrow> num (env_get e ''W_SKULL'') 6
      | PARROT \<Rightarrow> num (env_get e ''W_PARROT'') 6
      | CANNON \<Rightarrow> num (env_get e ''W_CANNON'') 5
      | CHEST_GOLD \<Rightarrow> num (env_get e ''W_CHEST_GOLD'') 4
      | COMPASS \<Rightarrow> num (env_get e ''W_COMPASS'') 5
      | SCATTER \<Rightarrow> num (nullish (env_get e ''W_SCATTER'') (env_get e ''W_STAR'')) 3
      | WILD \<Rightarrow> num (env_get e ''W_WILD'') 2)"

text \<open>\<open>mapEnvSymbol(e.KEY ?? dflt)\<close>\<close>

definition symbol_of_env :: "Env \<Rightarrow> string \<Rightarrow> string \<Rightarrow> SymbolId option" where
  "symbol_of_env e k dflt = mapEnvSymbol (case e k of None \<Rightarrow> dflt | Some s \<Rightarrow> s)"

definition loadEnvMathSpec :: "Env \<Rightarrow> EnvMathSpec" where
  "loadEnvMathSpec e =
     \<lparr>reels = num (env_get e ''REELS'') 5,
      rows = num (env_get e ''ROWS'') 3,
      betMin = num (env_get e ''BET_MIN'') 10,
      betMax = num (env_get e ''BET_MAX'') 1000,
      betStep = num (env_get e ''BET_STEP'') 10,
      hitRate = num (env_get e ''MATH_TARGET_HIT_RATE'') (32 / 100),
      bonusTargetFrequency = num (env_get e ''BONUS_TARGET_FREQUENCY'') (2 / 100),
      symbols = symList (env_get e ''SYMBOLS'')
                  [A, K, Q, J, T, CROWN, SKULL, PARROT, CANNON, CHEST_GOLD, COMPASS, WILD, SCATTER],
      weights = weights_of_env e,
      wildSubstitutes = bool_env (env_get e ''WILD_SUBSTITUTES'') True,
      wildPaysItself = bool_env (env_get e ''WILD_PAYS_ITSELF'') False,
      scatterSymbol = (case symbol_of_env e ''BONUS_SCATTER_SYMBOL'' ''SCATTER'' of
                         None \<Rightarrow> SCATTER | Some s \<Rightarrow> s),
      bonusEnabled = bool_env (env_get e ''BONUS_ENABLED'') True,
      bonusTriggerCount = num (env_get e ''BONUS_TRIGGER_COUNT'') 3,
      scatterPays = bool_env (env_get e ''SCATTER_PAYS'') False,
      scatterPay = scatterPay_of_env e,
      paytable = paytable_of_env e,
      freeSpinsAward = num (env_get e ''FREESPINS_AWARD'') 5,
      freeSpinsWinMult = num (env_get e ''FREESPINS_WIN_MULT'') 1,
      freeSpinsRetriggerEnabled = bool_env (env_get e ''FREESPINS_RETRIGGER_ENABLED'') True,
      freeSpinsRetriggerCount = num (env_get e ''FREESPINS_RETRIGGER_COUNT'') 3,
      freeSpinsRetriggerAward = num (env_get e ''FREESPINS_RETRIGGER_AWARD'') 3,
      bigWinThresholdXBet = num (env_get e ''BIG_WIN_THRESHOLD_XBET'') 10,
      rngSeed = num (env_get e ''RNG_SEED'') 0,
      qaForceBonus = bool_env (env_get e ''QA_FORCE_BONUS'') False,
      qaForceWin = bool_env (env_get e ''QA_FORCE_WIN'') False,
      qaForceSymbol = symbol_of_env e ''QA_FORCE_SYMBOL'' [],
      qaLog = bool_env (env_get e ''QA_LOG'') False\<rparr>"

section \<open>Random source\<close>

text \<open>
  Modelled from the spec: the random source \<open>rng: () => number\<close> that
  \<open>createRng\<close> (slot/SlotRng) builds, a zero-argument function returning a uniform
  value in \<open>[0, 1)\<close>. It is kept as the sequence of values it will return and the
  number of values drawn so far.
\<close>

typedef unit01 = "{u :: real. 0 \<le> u \<and> u < 1}"
  by (rule exI [of _ 0]) simp

setup_lifting type_definition_unit01

lift_definition u_zero :: unit01 is "0" by simp

lift_definition u_half :: unit01 is "1 / 2" by simp

record Rng =
  draws :: "nat \<Rightarrow> unit01"
  pos :: nat

definition rng_call :: "Rng \<Rightarrow> real \<times> Rng" where
  "rng_call g = (Rep_unit01 (draws g (pos g)), g\<lparr>pos := pos g + 1\<rparr>)"

text \<open>\<open>x | 0\<close>: truncation towards zero, then wrap-around into the signed 32-bit range.\<close>

definition bitor0 :: "real \<Rightarrow> int" where
  "bitor0 x = (let t = (if x < 0 then \<lceil>x\<rceil> else \<lfloor>x\<rfloor>) in (t + 2 ^ 31) mod 2 ^ 32 - 2 ^ 31)"

section \<open>Weighted grid generator (game/math/SpinGenerator.ts)\<close>

datatype error = TypeError

record GeneratedSpin =
  grid :: Grid
  forcedWin :: bool
  forcedScatter :: bool

record SpinOpts =
  opt_hitRate :: "real option"
  opt_bonusTargetFrequency :: "real option"

text \<open>
  The subtraction loop of \<open>pickWeightedSymbol\<close>: the first symbol at which the running
  remainder is at most 0, or \<open>None\<close> when the loop runs off the end of the list.
\<close>

fun pick_scan :: "(SymbolId \<Rightarrow> real) \<Rightarrow> real \<Rightarrow> SymbolId list \<Rightarrow> SymbolId option" where
  "pick_scan w roll [] = None"
| "pick_scan w roll (s # ss) =
     (let roll' = roll - w s in if roll' \<le> 0 then Some s else pick_scan w roll' ss)"

definition pickWeightedSymbol :: "Rng \<Rightarrow> EnvMathSpec \<Rightarrow> SymbolId \<times> Rng" where
  "pickWeightedSymbol g math =
     (let w = weights math;
          total = foldl (\<lambda>t s. t + w s) 0 (symbols math);
          (u, g') = rng_call g;
          roll = u * total
      in (case pick_scan w roll (symbols math) of Some s \<Rightarrow> (s, g') | None \<Rightarrow> (A, g')))"

definition pickMatchCount :: "Rng \<Rightarrow> nat \<times> Rng" where
  "pickMatchCount g =
     (let (u, g') = rng_call g;
          roll = u * (82 + 16 + 2) - 82
      in if roll \<le> 0 then (3, g')
         else if roll - 16 \<le> 0 then (4, g')
         else (5, g'))"

text \<open>A column of \<open>n\<close> weighted draws, and \<open>m\<close> such columns.\<close>

fun draw_column :: "nat \<Rightarrow> Rng \<Rightarrow> EnvMathSpec \<Rightarrow> SymbolId list \<times> Rng" where
  "draw_column 0 g math = ([], g)"
| "draw_column (Suc n) g math =
     (let (s, g1) = pickWeightedSymbol g math;
          (ss, g2) = draw_column n g1 math
      in (s # ss, g2))"

fun draw_columns :: "nat \<Rightarrow> nat \<Rightarrow> Rng \<Rightarrow> EnvMathSpec \<Rightarrow> Grid \<times> Rng" where
  "draw_columns 0 n g math = ([], g)"
| "draw_columns (Suc m) n g math =
     (let (col, g1) = draw_column n g math;
          (cols, g2) = draw_columns m n g1 math
      in (col # cols, g2))"

definition createWeightedGrid :: "Rng \<Rightarrow> EnvMathSpec \<Rightarrow> nat \<Rightarrow> nat \<Rightarrow> Grid \<times> Rng" where
  "createWeightedGrid g math nreels nrows = draw_columns nreels nrows g math"

text \<open>
  \<open>grid[r]![y] = v\<close> with an index computed by \<open>| 0\<close>. The passes below write only
  into the rectangular grid that \<open>createWeightedGrid\<close> built and draw their indices as
  \<open>(rng() * n) | 0\<close> with \<open>n\<close> the number of reels or rows, so an index is below
  \<open>n\<close>; a negative index (only for \<open>n\<close> beyond the 32-bit range) names no element.
\<close>

definition write_cell :: "Grid \<Rightarrow> nat \<Rightarrow> int \<Rightarrow> SymbolId \<Rightarrow> Grid" where
  "write_cell gr r y v =
     (if r < length gr \<and> 0 \<le> y \<and> nat y < length (gr ! r)
      then gr[r := (gr ! r)[nat y := v]] else gr)"

text \<open>The loop of ten draws for a symbol that is neither the scatter symbol nor WILD.\<close>

fun pick_forced_symbol :: "nat \<Rightarrow> Rng \<Rightarrow> EnvMathSpec \<Rightarrow> SymbolId \<times> Rng" where
  "pick_forced_symbol 0 g math = (A, g)"
| "pick_forced_symbol (Suc n) g math =
     (let (s, g1) = pickWeightedSymbol g math
      in if s \<noteq> scatterSymbol math \<and> s \<noteq> WILD then (s, g1)
         else pick_forced_symbol n g1 math)"

definition applyForcedWinLine :: "Rng \<Rightarrow> EnvMathSpec \<Rightarrow> Grid \<Rightarrow> (error + Grid) \<times> Rng" where
  "applyForcedWinLine g math gr =
     (case gr of
        [] \<Rightarrow> (Inl TypeError, g)
      | col0 # _ \<Rightarrow>
          (let (u, g1) = rng_call g;
               y = bitor0 (u * real (length col0));
               (cnt, g2) = pickMatchCount g1;
               (sym, g3) = pick_forced_symbol 10 g2 math;
               maxCount = min (length gr) cnt
           in (Inr (foldl (\<lambda>acc r. write_cell acc r y sym) gr [0..<maxCount]), g3)))"

text \<open>The loop of twenty draws, and the fallback after it.\<close>

fun pick_different :: "nat \<Rightarrow> Rng \<Rightarrow> EnvMathSpec \<Rightarrow> SymbolId \<Rightarrow> SymbolId \<times> Rng" where
  "pick_different 0 g math notThis = (if notThis = A then K else A, g)"
| "pick_different (Suc n) g math notThis =
     (let (s, g1) = pickWeightedSymbol g math
      in if s \<noteq> scatterSymbol math \<and> s \<noteq> notThis then (s, g1)
         else pick_different n g1 math notThis)"

definition pickDifferentNonScatter :: "Rng \<Rightarrow> EnvMathSpec \<Rightarrow> SymbolId \<Rightarrow> SymbolId \<times> Rng" where
  "pickDifferentNonScatter g math notThis = pick_different 20 g math notThis"

text \<open>
  The inner loop of \<open>breakAccidentalWins\<close>: the number of reels from reel 1 on whose
  cell in the row equals \<open>first\<close>, up to the first that does not (a missing cell reads
  as \<open>undefined\<close> and does not).
\<close>

definition run_after_first :: "Grid \<Rightarrow> nat \<Rightarrow> SymbolId \<Rightarrow> nat" where
  "run_after_first gr y first =
     length (takeWhile (\<lambda>r. cell gr r y = Some first) [1..<length gr])"

text \<open>
  One pass of the outer loop, for the row \<open>y\<close> below \<open>grid[0].length\<close>. With a count of
  3 or more the cell of reel 2 in the row exists, so the write replaces it.
\<close>

definition break_row :: "EnvMathSpec \<Rightarrow> Grid \<times> Rng \<Rightarrow> nat \<Rightarrow> Grid \<times> Rng" where
  "break_row math st y =
     (let gr = fst st; g = snd st
      in (case cell gr 0 y of
            None \<Rightarrow> st
          | Some first \<Rightarrow>
              if first = scatterSymbol math then st
              else (let cnt = 1 + run_after_first gr y first
                    in if cnt \<ge> 3
                       then (let (s, g1) = pickDifferentNonScatter g math first
                             in (gr[2 := (gr ! 2)[y := s]], g1))
                       else st)))"

definition breakAccidentalWins :: "Rng \<Rightarrow> EnvMathSpec \<Rightarrow> Grid \<Rightarrow> (error + Grid) \<times> Rng" where
  "breakAccidentalWins g math gr =
     (case gr of
        [] \<Rightarrow> (Inl TypeError, g)
      | col0 # _ \<Rightarrow>
          (let st = foldl (break_row math) (gr, g) [0..<length col0] in (Inr (fst st), snd st)))"

definition countScatter :: "Grid \<Rightarrow> SymbolId \<Rightarrow> nat" where
  "countScatter gr sc = foldl (\<lambda>c col. c + length (filter (\<lambda>s. s = sc) col)) 0 gr"

text \<open>
  The loop of \<open>applyForcedScatter\<close>, with what is left of its budget of 200 rounds:
  \<open>c\<close> counts the scatter cells, \<open>nreels\<close> and \<open>nrows\<close> are the sizes read before
  the loop. Reading \<open>grid[r]![y]\<close> raises when there is no reel \<open>r\<close>.
\<close>

fun forced_scatter_loop :: "nat \<Rightarrow> EnvMathSpec \<Rightarrow> real \<Rightarrow> nat \<Rightarrow> nat \<Rightarrow> nat \<Rightarrow> Grid \<Rightarrow> Rng \<Rightarrow> (error + Grid) \<times> Rng" where
  "forced_scatter_loop 0 math desired nreels nrows c gr g = (Inr gr, g)"
| "forced_scatter_loop (Suc budget) math desired nreels nrows c gr g =
     (if real c < desired
      then (let (u1, g1) = rng_call g;
                r = bitor0 (u1 * real nreels);
                (u2, g2) = rng_call g1;
                y = bitor0 (u2 * real nrows)
            in if r < 0 \<or> nat r \<ge> length gr then (Inl TypeError, g2)
               else if (if 0 \<le> y then cell gr (nat r) (nat y) else None) \<noteq> Some (scatterSymbol math)
               then forced_scatter_loop budget math desired nreels nrows (c + 1)
                      (write_cell gr (nat r) y (scatterSymbol math)) g2
               else forced_scatter_loop budget math desired nreels nrows c gr g2)
      else (Inr gr, g))"

definition applyForcedScatter :: "Rng \<Rightarrow> EnvMathSpec \<Rightarrow> Grid \<Rightarrow> real \<Rightarrow> (error + Grid) \<times> Rng" where
  "applyForcedScatter g math gr desired =
     (case gr of
        [] \<Rightarrow> (Inl TypeError, g)
      | col0 # _ \<Rightarrow>
          forced_scatter_loop 200 math desired (length gr) (length col0)
            (countScatter gr (scatterSymbol math)) gr g)"

text \<open>The loop of \<open>limitScatterBelow\<close>, with what is left of its budget of 300 rounds.\<close>

fun limit_scatter_loop :: "nat \<Rightarrow> EnvMathSpec \<Rightarrow> real \<Rightarrow> nat \<Rightarrow> nat \<Rightarrow> int \<Rightarrow> Grid \<Rightarrow> Rng \<Rightarrow> (error + Grid) \<times> Rng" where
  "limit_scatter_loop 0 math limit nreels nrows c gr g = (Inr gr, g)"
| "limit_scatter_loop (Suc budget) math limit nreels nrows c gr g =
     (if real_of_int c \<ge> limit
      then (let (u1, g1) = rng_call g;
                r = bitor0 (u1 * real nreels);
                (u2, g2) = rng_call g1;
                y = bitor0 (u2 * real nrows)
            in if r < 0 \<or> nat r \<ge> length gr then (Inl TypeError, g2)
               else if (if 0 \<le> y then cell gr (nat r) (nat y) else None) = Some (scatterSymbol math)
               then (let (s, g3) = pickDifferentNonScatter g2 math (scatterSymbol math)
                     in limit_scatter_loop budget math limit nreels nrows (c - 1)
                          (write_cell gr (nat r) y s) g3)
               else limit_scatter_loop budget math limit nreels nrows c gr g2)
      else (Inr gr, g))"

definition limitScatterBelow :: "Rng \<Rightarrow> EnvMathSpec \<Rightarrow> Grid \<Rightarrow> real \<Rightarrow> (error + Grid) \<times> Rng" where
  "limitScatterBelow g math gr limit =
     (let c = countScatter gr (scatterSymbol math)
      in if real c < limit then (Inr gr, g)
         else (case gr of
                 [] \<Rightarrow> (Inl TypeError, g)
               | col0 # _ \<Rightarrow>
                   limit_scatter_loop 300 math limit (length gr) (length col0) (int c) gr g))"

text \<open>\<open>a || rng() < p\<close>: the source is not called when \<open>a\<close> holds.\<close>

definition flag_or_draw :: "bool \<Rightarrow> real \<Rightarrow> Rng \<Rightarrow> bool \<times> Rng" where
  "flag_or_draw a p g = (if a then (True, g) else (let (u, g') = rng_call g in (u < p, g')))"

definition generateSpin :: "Rng \<Rightarrow> EnvMathSpec \<Rightarrow> nat \<Rightarrow> nat \<Rightarrow> SpinOpts option \<Rightarrow> (error + GeneratedSpin) \<times> Rng" where
  "generateSpin g math nreels nrows overrides =
     (let hr = (case overrides of None \<Rightarrow> hitRate math
                | Some ov \<Rightarrow> (case opt_hitRate ov of None \<Rightarrow> hitRate math | Some v \<Rightarrow> v));
          bf = (case overrides of None \<Rightarrow> bonusTargetFrequency math
                | Some ov \<Rightarrow> (case opt_bonusTargetFrequency ov of
                               None \<Rightarrow> bonusTargetFrequency math | Some v \<Rightarrow> v));
          (forceScatter, g1) = flag_or_draw (qaForceBonus math) bf g;
          (forceWin, g2) = flag_or_draw (qaForceWin math) hr g1;
          (gr0, g3) = createWeightedGrid g2 math nreels nrows;
          gr1 = (case qaForceSymbol math of
                   None \<Rightarrow> gr0
                 | Some s \<Rightarrow> replicate nreels (replicate nrows s))
      in (case (if forceWin then applyForcedWinLine g3 math gr1
                else breakAccidentalWins g3 math gr1) of
            (Inl e, g4) \<Rightarrow> (Inl e, g4)
          | (Inr gr2, g4) \<Rightarrow>
              (case (if forceScatter then applyForcedScatter g4 math gr2 (bonusTriggerCount math)
                     else limitScatterBelow g4 math gr2 (bonusTriggerCount math)) of
                 (Inl e, g5) \<Rightarrow> (Inl e, g5)
               | (Inr gr3, g5) \<Rightarrow>
                   (Inr \<lparr>grid = gr3, forcedWin = forceWin, forcedScatter = forceScatter\<rparr>, g5))))"

section \<open>Slot model (game/slot/SlotModel.ts)\<close>

record SlotModel =
  rng :: Rng
  math :: EnvMathSpec

text \<open>\<open>SlotConfig.reels.count\<close> and \<open>SlotConfig.reels.rows\<close>\<close>

definition reels_count :: nat where
  "reels_count = 5"

definition reels_rows :: nat where
  "reels_rows = 3"

definition spin :: "SlotModel \<Rightarrow> SpinOpts option \<Rightarrow> (error + Grid) \<times> SlotModel" where
  "spin m opts =
     (case generateSpin (rng m) (math m) reels_count reels_rows opts of
        (Inl e, g') \<Rightarrow> (Inl e, m\<lparr>rng := g'\<rparr>)
      | (Inr gen, g') \<Rightarrow> (Inr (grid gen), m\<lparr>rng := g'\<rparr>))"

section \<open>Hold-aware spin composer (game/spinLogic.ts)\<close>

text \<open>
  Column arrays are objects: a grid holds references to them. The store is the list of
  all column arrays allocated so far, an address is an index into it, and a grid is the
  list of the addresses of its columns.
\<close>

type_synonym addr = nat

type_synonym Heap = "SymbolId list list"

type_synonym GridRef = "addr list"

definition alloc :: "Heap \<Rightarrow> SymbolId list \<Rightarrow> addr \<times> Heap" where
  "alloc h col = (length h, h @ [col])"

text \<open>The grid a generator returns: every column is a new array.\<close>

definition alloc_grid :: "Heap \<Rightarrow> Grid \<Rightarrow> GridRef \<times> Heap" where
  "alloc_grid h gr = ([length h..<length h + length gr], h @ gr)"

definition deref :: "Heap \<Rightarrow> GridRef \<Rightarrow> Grid" where
  "deref h gref = map (\<lambda>a. h ! a) gref"

text \<open>
  The loop of \<open>spinGrid\<close> over the reels still to visit: \<open>heldReels[r]\<close> beyond the
  end of the mask is \<open>undefined\<close>, so not held; \<open>previousGrid[r]!.slice()\<close> raises
  when the previous grid has no reel \<open>r\<close>, and otherwise allocates a new array with the
  cells of that column.
\<close>

fun copy_held :: "nat list \<Rightarrow> GridRef \<Rightarrow> bool list \<Rightarrow> GridRef \<Rightarrow> Heap \<Rightarrow> (error + GridRef) \<times> Heap" where
  "copy_held [] prev held next h = (Inr next, h)"
| "copy_held (r # rs) prev held next h =
     (if elem_at held r = Some True
      then (case elem_at prev r of
              None \<Rightarrow> (Inl TypeError, h)
            | Some a \<Rightarrow> (let (a', h') = alloc h (h ! a)
                         in copy_held rs prev held (next[r := a']) h'))
      else copy_held rs prev held next h)"

definition spinGrid :: "SlotModel \<Rightarrow> Heap \<Rightarrow> GridRef option \<Rightarrow> bool list option \<Rightarrow> SpinOpts option \<Rightarrow> (error + GridRef) \<times> SlotModel \<times> Heap" where
  "spinGrid m h previousGrid heldReels opts =
     (case spin m opts of
        (Inl e, m') \<Rightarrow> (Inl e, m', h)
      | (Inr gr, m') \<Rightarrow>
          (let (next, h1) = alloc_grid h gr
           in (case previousGrid of
                 None \<Rightarrow> (Inr next, m', h1)
               | Some prev \<Rightarrow>
                   (case heldReels of
                      None \<Rightarrow> (Inr next, m', h1)
                    | Some held \<Rightarrow>
                        (let (res, h2) = copy_held [0..<length next] prev held next h1
                         in (res, m', h2))))))"

section \<open>Round sequencing (scenes/SlotScene.ts)\<close>

datatype SlotState = IDLE | SPINNING | RESULT | BONUS | WIN_PRESENTATION

text \<open>
  The calls to the presentation collaborators, kept as a log. They do not write to the
  fields below; the waits for them are not modelled.
\<close>

datatype Fx = SyncUi | SyncHud | ShakeLose | FlashWin
  | HudBalance real | HudFreeSpins real | HudSpins nat | HudWin real
  | SetHeld "bool list option" | BonusPopup real | Present "WinLine list" real

definition slot_allowed :: "SlotState \<Rightarrow> SlotState list option" where
  "slot_allowed s =
     (case s of
        IDLE \<Rightarrow> Some [SPINNING]
      | SPINNING \<Rightarrow> Some [RESULT]
      | RESULT \<Rightarrow> Some [BONUS, WIN_PRESENTATION, IDLE]
      | BONUS \<Rightarrow> Some [WIN_PRESENTATION]
      | WIN_PRESENTATION \<Rightarrow> Some [IDLE, SPINNING])"

text \<open>The scene's machine in state \<open>s\<close>: every state has an enter hook, none an exit hook.\<close>

definition slot_machine :: "SlotState \<Rightarrow> (SlotState, Fx) StateMachine" where
  "slot_machine s = \<lparr>allowed = slot_allowed, onEnter = (\<lambda>_. Some SyncUi), onExit = (\<lambda>_. None), state = s\<rparr>"

text \<open>
  The fields of the scene that the round reads and writes. \<open>this.math\<close> is the object
  the model was built with, so it is read through the model.
\<close>

record SlotScene =
  model :: SlotModel
  heap :: Heap
  prevGrid :: "GridRef option"
  heldReels :: "bool list option"
  balance :: real
  bet :: real
  lastWin :: real
  freeSpins :: real
  totalSpins :: nat
  state_sc :: "(SlotState, Fx) StateMachine"
  fx :: "Fx list"

text \<open>\<open>this.state.set(t)\<close>\<close>

definition set_state :: "SlotState \<Rightarrow> SlotScene \<Rightarrow> SlotScene" where
  "set_state t s = (let (m, hs) = set_sm t (state_sc s) in s\<lparr>state_sc := m, fx := fx s @ hs\<rparr>)"

definition emit :: "Fx list \<Rightarrow> SlotScene \<Rightarrow> SlotScene" where
  "emit es s = s\<lparr>fx := fx s @ es\<rparr>"

text \<open>What a spin request leads to.\<close>

datatype Outcome = Ignored | Rejected | Spinning GridRef "bool list option" | Crashed error

text \<open>
  \<open>startSpinFlow\<close> up to the call of \<open>machine.spinTo\<close>: the composed grid and the mask
  \<open>freezeReels\<close> are what the stop callback will see.
\<close>

definition startSpinFlow :: "SlotScene \<Rightarrow> SlotScene \<times> Outcome" where
  "startSpinFlow s =
     (let s1 = set_state SPINNING s;
          freezeReels = heldReels s1
      in (case spinGrid (model s1) (heap s1) (prevGrid s1) (heldReels s1) None of
            (Inl e, m', h') \<Rightarrow> (s1\<lparr>model := m', heap := h'\<rparr>, Crashed e)
          | (Inr gref, m', h') \<Rightarrow> (s1\<lparr>model := m', heap := h'\<rparr>, Spinning gref freezeReels)))"

definition requestSpin :: "bool \<Rightarrow> SlotScene \<Rightarrow> SlotScene \<times> Outcome" where
  "requestSpin forceFree s =
     (if \<not> can SPINNING (state_sc s) then (s, Ignored)
      else if state (state_sc s) \<noteq> IDLE then (s, Ignored)
      else
        (let isFreeSpin = (freeSpins s > 0);
             isRespin = (forceFree \<and> freeSpins s \<le> 0);
             isAnyFree = (isFreeSpin \<or> isRespin)
         in if \<not> isAnyFree \<and> balance s < bet s then (emit [ShakeLose] s, Rejected)
            else
              (let s1 = (if isFreeSpin
                         then emit [HudFreeSpins (freeSpins s - 1)] (s\<lparr>freeSpins := freeSpins s - 1\<rparr>)
                         else if \<not> isRespin
                         then emit [HudBalance (balance s - bet s)] (s\<lparr>balance := balance s - bet s\<rparr>)
                         else s);
                   s2 = emit [HudSpins (totalSpins s1 + 1)] (s1\<lparr>totalSpins := totalSpins s1 + 1\<rparr>);
                   s3 = emit [HudWin 0] (s2\<lparr>lastWin := 0\<rparr>)
               in startSpinFlow s3)))"





section \<open>Notions used in the statements, and concrete inputs\<close>



text \<open>The scene as its field initialisers leave it, with the defaults of the loader.\<close>

definition scene0 :: SlotScene where
  "scene0 =
     \<lparr>model = \<lparr>rng = \<lparr>draws = (\<lambda>_. u_half), pos = 0\<rparr>, math = loadEnvMathSpec Map.empty\<rparr>,
      heap = [], prevGrid = None, heldReels = None, balance = 1000, bet = 10, lastWin = 0,
      freeSpins = 0, totalSpins = 0, state_sc = slot_machine IDLE, fx = []\<rparr>"

text \<open>A stopped 5x3 grid with WILD on reels 0 and 2 and three scatter cells.\<close>

definition heap1 :: Heap where
  "heap1 = [[WILD, K, Q], [A, SCATTER, K], [J, WILD, SCATTER], [A, K, T], [A, A, SCATTER]]"

definition gref1 :: GridRef where
  "gref1 = [0, 1, 2, 3, 4]"



text \<open>Grids and math specifications for the evaluator.\<close>

definition grid_all_A :: Grid where
  "grid_all_A = [[A, A, A], [A, A, A], [A, A, A], [A, A, A], [A, A, A]]"

definition grid_sc :: Grid where
  "grid_sc = [[SCATTER, K, WILD], [A, K, K], [A, K, K], [A, SCATTER, A], [A, K, A]]"

definition math0 :: EnvMathSpec where
  "math0 = loadEnvMathSpec Map.empty"

definition math_scatter_A :: EnvMathSpec where
  "math_scatter_A = loadEnvMathSpec (Map.empty(''BONUS_SCATTER_SYMBOL'' \<mapsto> ''A''))"


text \<open>A grid of \<open>n\<close> reels with \<open>k\<close> rows each.\<close>

definition shape :: "nat \<Rightarrow> nat \<Rightarrow> Grid \<Rightarrow> bool" where
  "shape n k gr \<longleftrightarrow> length gr = n \<and> (\<forall>c \<in> set gr. length c = k)"

text \<open>Row \<open>y\<close> starts with the same symbol, not the scatter symbol, on reels 0, 1 and 2.\<close>

definition run3 :: "EnvMathSpec \<Rightarrow> Grid \<Rightarrow> nat \<Rightarrow> bool" where
  "run3 m gr y =
     (case cell gr 0 y of
        None \<Rightarrow> False
      | Some s \<Rightarrow> s \<noteq> scatterSymbol m \<and> cell gr 1 y = Some s \<and> cell gr 2 y = Some s)"

text \<open>
  The grid of \<open>breakAccidentalWins\<close> after the rows in \<open>Y\<close> were visited: only reel 2
  of a visited row that had a run differs from the input \<open>gr0\<close>, and there it holds
  another symbol than reel 0.
\<close>

definition visited :: "EnvMathSpec \<Rightarrow> Grid \<Rightarrow> nat set \<Rightarrow> Grid \<Rightarrow> bool" where
  "visited m gr0 Y gr \<longleftrightarrow>
     length gr = length gr0
     \<and> (\<forall>r y. (r = 2 \<and> y \<in> Y \<and> run3 m gr0 y) \<or> cell gr r y = cell gr0 r y)
     \<and> (\<forall>y \<in> Y. run3 m gr0 y \<longrightarrow> cell gr 2 y \<noteq> None \<and> cell gr 2 y \<noteq> cell gr0 0 y)"





text \<open>Random sources: every draw one half; and one half except for the draws 5, 6 and 7.\<close>

definition rng_half :: Rng where
  "rng_half = \<lparr>draws = (\<lambda>_. u_half), pos = 0\<rparr>"

definition rng_mixed :: Rng where
  "rng_mixed = \<lparr>draws = (\<lambda>n. if 5 \<le> n \<and> n < 8 then u_zero else u_half), pos = 0\<rparr>"

definition model1 :: SlotModel where
  "model1 = \<lparr>rng = rng_mixed, math = math0\<rparr>"







text \<open>A grid whose top row starts with four K and whose bottom row starts with scatter symbols.\<close>

definition grid_run :: Grid where
  "grid_run = [[K, A, SCATTER], [K, Q, SCATTER], [K, J, SCATTER], [K, T, A], [A, A, A]]"

section \<open>State machine: transitions\<close>

lemma can_same: "can (state m) m"
  by (simp add: can_def)

lemma set_sm_same: "set_sm (state m) m = (m, [])"
  by (simp add: set_sm_def)

lemma set_sm_not_whitelisted:
  "\<not> whitelisted m (state m) t \<Longrightarrow> set_sm t m = (m, [])"
  by (auto simp: set_sm_def can_def whitelisted_def split: option.splits)

lemma set_sm_changed:
  assumes "state (fst (set_sm t m)) \<noteq> state m"
  shows "whitelisted m (state m) t \<and> state (fst (set_sm t m)) = t"
proof -
  from assms have c: "can t m" and ne: "t \<noteq> state m"
    by (auto simp: set_sm_def split: if_splits)
  from c ne have "whitelisted m (state m) t"
    by (auto simp: can_def whitelisted_def split: option.splits if_splits)
  moreover from c ne have "state (fst (set_sm t m)) = t"
    by (simp add: set_sm_def Let_def)
  ultimately show ?thesis by simp
qed

lemma set_sm_allowed: "allowed (fst (set_sm t m)) = allowed m"
  by (simp add: set_sm_def Let_def)

text \<open>
  Claim C7. A request for the current state is allowed by \<open>can\<close>, returns the machine
  as it was and calls no hook; a request for a target that the current state's table entry does not list does
  the same; so whenever a request changes the state, the new state is the requested one
  and the table lists it for the old state. The table itself is never changed.
\<close>

theorem set_only_along_whitelisted_edges:
  "(t = state m \<longrightarrow> can t m \<and> set_sm t m = (m, []))
   \<and> (\<not> whitelisted m (state m) t \<longrightarrow> set_sm t m = (m, []))
   \<and> (state (fst (set_sm t m)) \<noteq> state m \<longrightarrow>
        whitelisted m (state m) t \<and> state (fst (set_sm t m)) = t)
   \<and> allowed (fst (set_sm t m)) = allowed m"
  using set_sm_same [of m] set_sm_not_whitelisted [of m t] set_sm_changed [of t m]
    set_sm_allowed [of t m] can_same [of m]
  by blast

theorem set_only_along_whitelisted_edges_witness:
  "set_sm IDLE (slot_machine IDLE) = (slot_machine IDLE, [])
   \<and> \<not> whitelisted (slot_machine IDLE) IDLE RESULT
   \<and> set_sm RESULT (slot_machine IDLE) = (slot_machine IDLE, [])
   \<and> state (fst (set_sm SPINNING (slot_machine IDLE))) \<noteq> state (slot_machine IDLE)
   \<and> whitelisted (slot_machine IDLE) IDLE SPINNING
   \<and> state (fst (set_sm SPINNING (slot_machine IDLE))) = SPINNING"
proof -
  have st: "state (slot_machine IDLE) = IDLE"
    by (simp add: slot_machine_def)
  have nw: "\<not> whitelisted (slot_machine IDLE) (state (slot_machine IDLE)) RESULT"
    by (simp add: whitelisted_def slot_machine_def slot_allowed_def)
  have ch: "state (fst (set_sm SPINNING (slot_machine IDLE))) \<noteq> state (slot_machine IDLE)"
    by (simp add: set_sm_def can_def slot_machine_def slot_allowed_def)
  from set_only_along_whitelisted_edges [of IDLE "slot_machine IDLE"] st
  have a: "set_sm IDLE (slot_machine IDLE) = (slot_machine IDLE, [])" by simp
  from set_only_along_whitelisted_edges [of RESULT "slot_machine IDLE"] nw
  have b: "set_sm RESULT (slot_machine IDLE) = (slot_machine IDLE, [])" by blast
  from set_only_along_whitelisted_edges [of SPINNING "slot_machine IDLE"] ch
  have c: "whitelisted (slot_machine IDLE) (state (slot_machine IDLE)) SPINNING
           \<and> state (fst (set_sm SPINNING (slot_machine IDLE))) = SPINNING" by blast
  from a b c nw ch st show ?thesis by simp
qed

section \<open>Round sequencing: what the steps leave unchanged\<close>

lemma set_state_fields [simp]:
  "model (set_state t s) = model s" "heap (set_state t s) = heap s"
  "prevGrid (set_state t s) = prevGrid s" "heldReels (set_state t s) = heldReels s"
  "balance (set_state t s) = balance s" "bet (set_state t s) = bet s"
  "lastWin (set_state t s) = lastWin s" "freeSpins (set_state t s) = freeSpins s"
  "totalSpins (set_state t s) = totalSpins s"
  by (simp_all add: set_state_def split: prod.splits)

lemma emit_fields [simp]:
  "model (emit es s) = model s" "heap (emit es s) = heap s"
  "prevGrid (emit es s) = prevGrid s" "heldReels (emit es s) = heldReels s"
  "balance (emit es s) = balance s" "bet (emit es s) = bet s"
  "lastWin (emit es s) = lastWin s" "freeSpins (emit es s) = freeSpins s"
  "totalSpins (emit es s) = totalSpins s" "state_sc (emit es s) = state_sc s"
  by (simp_all add: emit_def)

lemma can_spinning_idle: "can SPINNING (slot_machine IDLE)"
  by (simp add: can_def slot_machine_def slot_allowed_def)

lemma state_slot_machine [simp]: "state (slot_machine t) = t"
  by (simp add: slot_machine_def)

lemma startSpinFlow_fields:
  "balance (fst (startSpinFlow s)) = balance s" "bet (fst (startSpinFlow s)) = bet s"
  "freeSpins (fst (startSpinFlow s)) = freeSpins s" "totalSpins (fst (startSpinFlow s)) = totalSpins s"
  "lastWin (fst (startSpinFlow s)) = lastWin s" "heldReels (fst (startSpinFlow s)) = heldReels s"
  "prevGrid (fst (startSpinFlow s)) = prevGrid s"
  by (simp_all add: startSpinFlow_def Let_def split: prod.splits sum.splits)


text \<open>A paid request in IDLE that the balance covers debits the bet once and takes no free spin.\<close>

lemma requestSpin_paid_spin:
  assumes "state_sc s = slot_machine IDLE" and "freeSpins s = 0" and "bet s \<le> balance s"
  shows "balance (fst (requestSpin False s)) = balance s - bet s
         \<and> freeSpins (fst (requestSpin False s)) = 0
         \<and> totalSpins (fst (requestSpin False s)) = totalSpins s + 1"
  using assms by (simp add: requestSpin_def can_spinning_idle startSpinFlow_fields Let_def)

section \<open>Spin request without the balance for the bet\<close>

text \<open>
  Claim C3. With the scene's machine in IDLE, no free spin left, a request that is not a
  forced respin and a balance below the bet, \<open>requestSpin\<close> is rejected: the only
  effect is the call of \<open>shakeLose\<close>. Balance, bet, free-spin count, total-spin count,
  last win, hold mask, previous grid, random source and the machine (still IDLE) are as
  before, and no spin is started.
\<close>

theorem requestSpin_rejected_without_balance:
  assumes "state_sc s = slot_machine IDLE" and "freeSpins s = 0" and "balance s < bet s"
  shows "requestSpin False s = (s\<lparr>fx := fx s @ [ShakeLose]\<rparr>, Rejected)
         \<and> balance (fst (requestSpin False s)) = balance s
         \<and> freeSpins (fst (requestSpin False s)) = freeSpins s
         \<and> totalSpins (fst (requestSpin False s)) = totalSpins s
         \<and> state (state_sc (fst (requestSpin False s))) = IDLE
         \<and> model (fst (requestSpin False s)) = model s"
  using assms by (simp add: requestSpin_def can_spinning_idle emit_def)

theorem requestSpin_rejected_without_balance_witness:
  "state_sc (scene0\<lparr>balance := 5\<rparr>) = slot_machine IDLE
   \<and> freeSpins (scene0\<lparr>balance := 5\<rparr>) = 0
   \<and> balance (scene0\<lparr>balance := 5\<rparr>) < bet (scene0\<lparr>balance := 5\<rparr>)
   \<and> requestSpin False (scene0\<lparr>balance := 5\<rparr>) = (scene0\<lparr>balance := 5, fx := [ShakeLose]\<rparr>, Rejected)
   \<and> balance (fst (requestSpin False (scene0\<lparr>balance := 5\<rparr>))) = 5"
proof -
  have h1: "state_sc (scene0\<lparr>balance := 5\<rparr>) = slot_machine IDLE"
    by (simp add: scene0_def)
  have h2: "freeSpins (scene0\<lparr>balance := 5\<rparr>) = 0"
    by (simp add: scene0_def)
  have h3: "balance (scene0\<lparr>balance := 5\<rparr>) < bet (scene0\<lparr>balance := 5\<rparr>)"
    by (simp add: scene0_def)
  have f: "fx scene0 = []" by (simp add: scene0_def)
  from requestSpin_rejected_without_balance [OF h1 h2 h3] h1 h2 h3 f show ?thesis
    by simp
qed

section \<open>The stop callback: free-spin award and next hold mask\<close>









lemma length_held_next [simp]: "length (held_next gr) = length gr"
  by (simp add: held_next_def)







section \<open>Evaluator: the total win\<close>

lemma payline_step_None: "eval_line g b m l = None \<Longrightarrow> payline_step g b m acc l = acc"
  by (simp add: payline_step_def)

lemma payline_step_Some:
  "eval_line g b m l = Some wl \<Longrightarrow> payline_step g b m acc l = (fst acc @ [wl], snd acc + amount wl)"
  by (simp add: payline_step_def)

lemma payline_fold:
  "foldl (payline_step g b m) acc ls =
     (fst acc @ List.map_filter (eval_line g b m) ls,
      snd acc + sum_list (map amount (List.map_filter (eval_line g b m) ls)))"
proof (induction ls arbitrary: acc)
  case Nil
  then show ?case by (simp add: List.map_filter_simps)
next
  case (Cons l ls)
  show ?case
    by (cases "eval_line g b m l")
       (simp_all add: Cons.IH payline_step_None payline_step_Some List.map_filter_simps algebra_simps)
qed

lemma payline_loop_eq:
  "payline_loop g b m =
     (List.map_filter (eval_line g b m) PAYLINES_5X3,
      sum_list (map amount (List.map_filter (eval_line g b m) PAYLINES_5X3)))"
  by (simp add: payline_loop_def payline_fold)

lemma winLines_eq: "winLines (evaluateGrid g b m fs) = List.map_filter (eval_line g b m) PAYLINES_5X3"
  by (simp add: evaluateGrid_def payline_loop_eq Let_def)

lemma in_winLines:
  "wl \<in> set (winLines (evaluateGrid g b m fs)) \<longleftrightarrow>
     (\<exists>l \<in> set PAYLINES_5X3. eval_line g b m l = Some wl)"
  by (force simp: winLines_eq List.map_filter_def)





section \<open>Evaluator: SCATTER in a payline scan\<close>

lemma scan_line_run:
  "scan_line ws base syms n used = (n', u) \<Longrightarrow>
     n \<le> n' \<and> n' \<le> n + length syms
     \<and> (\<forall>i < n' - n. syms ! i \<noteq> Some SCATTER \<and> (syms ! i = base \<or> syms ! i = Some WILD))"
proof (induction syms arbitrary: n used)
  case Nil
  then show ?case by simp
next
  case (Cons s ss)
  show ?case
  proof (cases "s \<noteq> Some SCATTER \<and> (s = base \<or> (ws \<and> s = Some WILD \<and> base \<noteq> Some WILD))")
    case False
    with Cons.prems have "n' = n" by (auto split: if_splits)
    then show ?thesis by simp
  next
    case True
    then obtain used' where "scan_line ws base ss (n + 1) used' = (n', u)"
      using Cons.prems by (auto split: if_splits)
    from Cons.IH [OF this]
    have ih: "n + 1 \<le> n'" "n' \<le> n + 1 + length ss"
      "\<forall>i < n' - (n + 1). ss ! i \<noteq> Some SCATTER \<and> (ss ! i = base \<or> ss ! i = Some WILD)"
      by auto
    have "(s # ss) ! i \<noteq> Some SCATTER \<and> ((s # ss) ! i = base \<or> (s # ss) ! i = Some WILD)"
      if "i < n' - n" for i
    proof (cases i)
      case 0
      with True show ?thesis by auto
    next
      case (Suc j)
      with that have "j < n' - (n + 1)" by simp
      with ih(3) Suc show ?thesis by simp
    qed
    with ih show ?thesis by simp
  qed
qed

lemma length_line_symbols [simp]: "length (line_symbols g path) = length g"
  by (simp add: line_symbols_def)

lemma line_symbols_nth:
  "i < length g \<Longrightarrow>
   line_symbols g path ! i = (case elem_at path i of None \<Rightarrow> None | Some y \<Rightarrow> cell g i y)"
  by (simp add: line_symbols_def split: option.splits)

text \<open>What a recorded win line tells about the scan that produced it.\<close>

lemma eval_line_Some:
  assumes "eval_line g b m l = Some wl"
  shows "\<exists>base n used.
           scan_line (wildSubstitutes m) (Some base) (line_symbols g (rows_pl l)) 0 False = (n, used)
           \<and> 3 \<le> n \<and> lineId wl = id_pl l \<and> pathRows wl = rows_pl l \<and> toReel wl = n - 1
           \<and> symbol wl = base \<and> positions wl = line_positions (rows_pl l) n
           \<and> (case elem_at (line_symbols g (rows_pl l)) 0 of None \<Rightarrow> None | Some s \<Rightarrow> s) \<noteq> Some SCATTER"
  using assms
  by (auto simp: eval_line_def Let_def split: if_splits prod.splits option.splits)

lemma line_positions_set:
  "p \<in> set (line_positions path n) \<longleftrightarrow> (\<exists>i < min n (length path). p = \<lparr>reel = i, row = path ! i\<rparr>)"
  by (force simp: line_positions_def in_set_conv_nth)

lemma line_positions_reels:
  "n \<le> length path \<Longrightarrow> map reel (line_positions path n) = [0..<n]"
  by (auto simp: line_positions_def intro!: nth_equalityI)

lemma recorded_line:
  assumes "eval_line g b m l = Some wl"
  shows "(\<forall>p \<in> set (positions wl). cell g (reel p) (row p) \<noteq> Some SCATTER)
         \<and> (\<forall>k < length g. line_symbols g (pathRows wl) ! k = Some SCATTER \<longrightarrow> toReel wl < k)
         \<and> map reel (positions wl) = [0..<Suc (toReel wl)]
         \<and> cell g 0 (rows_pl l ! 0) \<noteq> Some SCATTER
         \<and> lineId wl = id_pl l"
proof -
  let ?path = "rows_pl l"
  let ?syms = "line_symbols g ?path"
  from eval_line_Some [OF assms] obtain base n used where
    sc: "scan_line (wildSubstitutes m) (Some base) ?syms 0 False = (n, used)"
    and n3: "3 \<le> n" and wl: "lineId wl = id_pl l" "pathRows wl = ?path" "toReel wl = n - 1"
      "positions wl = line_positions ?path n"
    and s0: "(case elem_at ?syms 0 of None \<Rightarrow> None | Some s \<Rightarrow> s) \<noteq> Some SCATTER"
    by blast
  from scan_line_run [OF sc]
  have nlen: "n \<le> length g"
    and run: "\<forall>i < n. ?syms ! i \<noteq> Some SCATTER \<and> (?syms ! i = Some base \<or> ?syms ! i = Some WILD)"
    by auto
  have inpath: "i < length ?path \<and> cell g i (?path ! i) = ?syms ! i" if "i < n" for i
  proof -
    from that nlen have ig: "i < length g" by simp
    from run that have "?syms ! i \<noteq> None" by auto
    with ig show ?thesis
      by (auto simp: line_symbols_nth elem_at_def split: if_splits)
  qed
  have npath: "n \<le> length ?path"
  proof (rule ccontr)
    assume "\<not> n \<le> length ?path"
    then have "length ?path < n" by simp
    from inpath [OF this] show False by simp
  qed
  have a: "\<forall>p \<in> set (positions wl). cell g (reel p) (row p) \<noteq> Some SCATTER"
  proof
    fix p assume "p \<in> set (positions wl)"
    then obtain i where i: "i < n" "p = \<lparr>reel = i, row = ?path ! i\<rparr>"
      by (auto simp: wl line_positions_set)
    with inpath [of i] run show "cell g (reel p) (row p) \<noteq> Some SCATTER" by simp
  qed
  have b: "\<forall>k < length g. line_symbols g (pathRows wl) ! k = Some SCATTER \<longrightarrow> toReel wl < k"
  proof (intro allI impI)
    fix k assume "k < length g" and k: "line_symbols g (pathRows wl) ! k = Some SCATTER"
    have "\<not> k < n" using run k wl by auto
    with n3 wl show "toReel wl < k" by simp
  qed
  have c: "map reel (positions wl) = [0..<Suc (toReel wl)]"
    using line_positions_reels [OF npath] n3 wl by simp
  have d: "cell g 0 (rows_pl l ! 0) \<noteq> Some SCATTER"
    using inpath [of 0] run n3 by auto
  from a b c d wl show ?thesis by simp
qed

lemma payline_ids_distinct:
  "l \<in> set PAYLINES_5X3 \<Longrightarrow> l' \<in> set PAYLINES_5X3 \<Longrightarrow> id_pl l = id_pl l' \<Longrightarrow> l = l'"
  by (auto simp: PAYLINES_5X3_def)

text \<open>
  Claim C2, as the code has it. The line scan compares with the literal symbol SCATTER,
  not with \<open>math.scatterSymbol\<close>. For every grid, bet, math specification and flag:
  no cell in the positions of a recorded win line is SCATTER; wherever the path of a
  recorded line meets a SCATTER, all matched reels lie before it (the positions are the
  reels from 0 to \<open>toReel\<close>); and a payline whose leftmost cell is SCATTER has no win line.
\<close>

theorem literal_scatter_stops_every_line_scan:
  "(\<forall>wl \<in> set (winLines (evaluateGrid g b m fs)).
      (\<forall>p \<in> set (positions wl). cell g (reel p) (row p) \<noteq> Some SCATTER)
      \<and> (\<forall>k < length g. line_symbols g (pathRows wl) ! k = Some SCATTER \<longrightarrow> toReel wl < k)
      \<and> map reel (positions wl) = [0..<Suc (toReel wl)])
   \<and> (\<forall>l \<in> set PAYLINES_5X3. cell g 0 (rows_pl l ! 0) = Some SCATTER \<longrightarrow>
         (\<forall>wl \<in> set (winLines (evaluateGrid g b m fs)). lineId wl \<noteq> id_pl l))"
proof -
  have a: "(\<forall>p \<in> set (positions wl). cell g (reel p) (row p) \<noteq> Some SCATTER)
      \<and> (\<forall>k < length g. line_symbols g (pathRows wl) ! k = Some SCATTER \<longrightarrow> toReel wl < k)
      \<and> map reel (positions wl) = [0..<Suc (toReel wl)]"
    if "wl \<in> set (winLines (evaluateGrid g b m fs))" for wl
  proof -
    from that obtain l where "eval_line g b m l = Some wl" by (auto simp: in_winLines)
    from recorded_line [OF this] show ?thesis by blast
  qed
  have b: "lineId wl \<noteq> id_pl l"
    if l: "l \<in> set PAYLINES_5X3" and sc: "cell g 0 (rows_pl l ! 0) = Some SCATTER"
      and wl: "wl \<in> set (winLines (evaluateGrid g b m fs))" for l wl
  proof
    assume eq: "lineId wl = id_pl l"
    from wl obtain l' where l': "l' \<in> set PAYLINES_5X3" "eval_line g b m l' = Some wl"
      by (auto simp: in_winLines)
    from recorded_line [OF l'(2)] have r: "cell g 0 (rows_pl l' ! 0) \<noteq> Some SCATTER" "lineId wl = id_pl l'"
      by blast+
    from payline_ids_distinct [OF l l'(1)] eq r(2) have "l = l'" by simp
    with r(1) sc show False by simp
  qed
  from a b show ?thesis by blast
qed

theorem literal_scatter_stops_every_line_scan_witness:
  "map lineId (winLines (evaluateGrid grid_sc 10 math0 False)) = [1, 3, 7]
   \<and> line_symbols grid_sc (pathRows (hd (winLines (evaluateGrid grid_sc 10 math0 False)))) ! 3 = Some SCATTER
   \<and> toReel (hd (winLines (evaluateGrid grid_sc 10 math0 False))) < 3
   \<and> map reel (positions (hd (winLines (evaluateGrid grid_sc 10 math0 False))))
       = [0..<Suc (toReel (hd (winLines (evaluateGrid grid_sc 10 math0 False))))]
   \<and> cell grid_sc 0 (rows_pl (PAYLINES_5X3 ! 1) ! 0) = Some SCATTER
   \<and> lineId (hd (winLines (evaluateGrid grid_sc 10 math0 False))) \<noteq> id_pl (PAYLINES_5X3 ! 1)"
proof -
  let ?ev = "evaluateGrid grid_sc 10 math0 False"
  have ids: "map lineId (winLines ?ev) = [1, 3, 7]" by code_simp
  then have mem: "hd (winLines ?ev) \<in> set (winLines ?ev)" by (cases "winLines ?ev") auto
  have k: "(3::nat) < length grid_sc" by code_simp
  have sc: "line_symbols grid_sc (pathRows (hd (winLines ?ev))) ! 3 = Some SCATTER" by code_simp
  have l: "PAYLINES_5X3 ! 1 \<in> set PAYLINES_5X3" by (simp add: PAYLINES_5X3_def)
  have left: "cell grid_sc 0 (rows_pl (PAYLINES_5X3 ! 1) ! 0) = Some SCATTER" by code_simp
  from literal_scatter_stops_every_line_scan [of grid_sc 10 math0 False] mem k sc l left
  have "toReel (hd (winLines ?ev)) < 3
        \<and> map reel (positions (hd (winLines ?ev))) = [0..<Suc (toReel (hd (winLines ?ev)))]
        \<and> lineId (hd (winLines ?ev)) \<noteq> id_pl (PAYLINES_5X3 ! 1)"
    by blast
  with ids sc left show ?thesis by blast
qed

text \<open>
  With \<open>BONUS_SCATTER_SYMBOL=A\<close> the configured scatter symbol is A. On a grid of A
  only, every cell is counted as a scatter cell, and each of the seven paylines, whose
  leftmost cell is that symbol, is recorded as a win line of five A.
\<close>

theorem configured_scatter_symbol_counterexample:
  "scatterSymbol math_scatter_A = A
   \<and> cell grid_all_A 0 1 = Some (scatterSymbol math_scatter_A)
   \<and> map lineId (winLines (evaluateGrid grid_all_A 1 math_scatter_A False)) = [1, 2, 3, 4, 5, 6, 7]
   \<and> symbol (hd (winLines (evaluateGrid grid_all_A 1 math_scatter_A False))) = A
   \<and> count (hd (winLines (evaluateGrid grid_all_A 1 math_scatter_A False))) = 5
   \<and> positions (hd (winLines (evaluateGrid grid_all_A 1 math_scatter_A False)))
       = [\<lparr>reel = 0, row = 1\<rparr>, \<lparr>reel = 1, row = 1\<rparr>, \<lparr>reel = 2, row = 1\<rparr>,
          \<lparr>reel = 3, row = 1\<rparr>, \<lparr>reel = 4, row = 1\<rparr>]
   \<and> scatterCount (evaluateGrid grid_all_A 1 math_scatter_A False) = 15"
  by code_simp

section \<open>Weighted sampling: the loop that runs off the end\<close>






section \<open>Breaking accidental wins\<close>

lemma pick_different_neq: "fst (pick_different n g m x) \<noteq> x"
proof (induction n arbitrary: g)
  case 0
  show ?case by simp
next
  case (Suc n)
  show ?case
    by (cases "pickWeightedSymbol g m") (simp add: Suc.IH)
qed

lemma pickDifferentNonScatter_neq: "fst (pickDifferentNonScatter g m x) \<noteq> x"
  by (simp add: pickDifferentNonScatter_def pick_different_neq)

lemma run_after_first_ge2:
  assumes "3 \<le> length gr"
  shows "2 \<le> run_after_first gr y f \<longleftrightarrow> cell gr 1 y = Some f \<and> cell gr 2 y = Some f"
proof -
  from assms have "[1..<length gr] = 1 # 2 # [3..<length gr]"
    by (simp add: upt_conv_Cons numeral_3_eq_3 numeral_2_eq_2)
  then show ?thesis
    by (auto simp: run_after_first_def)
qed

lemma cell_update:
  "cell (gr[r := (gr ! r)[y := s]]) r' y' =
     (if r' = r \<and> y' = y \<and> cell gr r y \<noteq> None then Some s else cell gr r' y')"
  by (cases "r' = r"; cases "r < length gr"; cases "y' = y")
     (auto simp: cell_def elem_at_def nth_list_update)

lemma break_row_grid:
  assumes "3 \<le> length gr"
  shows "\<exists>s. cell gr 0 y \<noteq> Some s \<and>
           fst (break_row m (gr, g) y) = (if run3 m gr y then gr[2 := (gr ! 2)[y := s]] else gr)"
proof (cases "cell gr 0 y")
  case None
  then show ?thesis by (auto simp: break_row_def run3_def)
next
  case (Some f)
  show ?thesis
  proof (cases "run3 m gr y")
    case False
    with Some have "fst (break_row m (gr, g) y) = gr"
      using run_after_first_ge2 [OF assms, of y f]
      by (auto simp: break_row_def run3_def Let_def split: prod.splits)
    with False pickDifferentNonScatter_neq [of g m f] Some show ?thesis
      by (intro exI [of _ "fst (pickDifferentNonScatter g m f)"]) auto
  next
    case True
    with Some have "fst (break_row m (gr, g) y) = gr[2 := (gr ! 2)[y := fst (pickDifferentNonScatter g m f)]]"
      using run_after_first_ge2 [OF assms, of y f]
      by (auto simp: break_row_def run3_def Let_def split: prod.splits)
    with True pickDifferentNonScatter_neq [of g m f] Some show ?thesis
      by (intro exI [of _ "fst (pickDifferentNonScatter g m f)"]) auto
  qed
qed

lemma visited_step:
  assumes v: "visited m gr0 Y gr" and y: "y \<notin> Y" and len: "3 \<le> length gr0"
  shows "visited m gr0 (insert y Y) (fst (break_row m (gr, g) y))"
proof -
  from v have l: "length gr = length gr0"
    and same: "\<And>r y. (r = 2 \<and> y \<in> Y \<and> run3 m gr0 y) \<or> cell gr r y = cell gr0 r y"
    and dn: "\<And>y. y \<in> Y \<Longrightarrow> run3 m gr0 y \<Longrightarrow> cell gr 2 y \<noteq> None \<and> cell gr 2 y \<noteq> cell gr0 0 y"
    by (auto simp: visited_def)
  from same y have row: "cell gr r y = cell gr0 r y" for r by blast
  have r3: "run3 m gr y = run3 m gr0 y" by (simp add: run3_def row split: option.splits)
  from len l have "3 \<le> length gr" by simp
  from break_row_grid [OF this, of y m g] obtain s where
    s: "cell gr 0 y \<noteq> Some s"
    and b: "fst (break_row m (gr, g) y) = (if run3 m gr y then gr[2 := (gr ! 2)[y := s]] else gr)"
    by blast
  show ?thesis
  proof (cases "run3 m gr0 y")
    case False
    with b r3 have "fst (break_row m (gr, g) y) = gr" by simp
    with v False show ?thesis by (auto simp: visited_def)
  next
    case True
    with b r3 have g': "fst (break_row m (gr, g) y) = gr[2 := (gr ! 2)[y := s]]" by simp
    from True obtain f where f: "cell gr0 0 y = Some f" "cell gr0 2 y = Some f"
      by (auto simp: run3_def split: option.splits)
    with row have c2: "cell gr 2 y = Some f" "cell gr 0 y = Some f" by simp_all
    with s have sf: "s \<noteq> f" by simp
    have new: "cell (gr[2 := (gr ! 2)[y := s]]) r y' =
                 (if r = 2 \<and> y' = y then Some s else cell gr r y')" for r y'
      using c2 by (simp add: cell_update)
    show ?thesis
      unfolding visited_def g'
    proof (intro conjI allI ballI impI)
      show "length (gr[2 := (gr ! 2)[y := s]]) = length gr0" using l by simp
    next
      fix r y'
      show "(r = 2 \<and> y' \<in> insert y Y \<and> run3 m gr0 y') \<or>
            cell (gr[2 := (gr ! 2)[y := s]]) r y' = cell gr0 r y'"
        using same [of r y'] True by (auto simp: new)
    next
      fix y' assume "y' \<in> insert y Y" and "run3 m gr0 y'"
      then show "cell (gr[2 := (gr ! 2)[y := s]]) 2 y' \<noteq> None"
        using dn [of y'] by (auto simp: new)
    next
      fix y' assume "y' \<in> insert y Y" and "run3 m gr0 y'"
      then show "cell (gr[2 := (gr ! 2)[y := s]]) 2 y' \<noteq> cell gr0 0 y'"
        using dn [of y'] sf f by (auto simp: new)
    qed
  qed
qed

lemma visited_fold:
  assumes "visited m gr0 Y gr" and "distinct ys" and "set ys \<inter> Y = {}" and "3 \<le> length gr0"
  shows "visited m gr0 (Y \<union> set ys) (fst (foldl (break_row m) (gr, g) ys))"
  using assms
proof (induction ys arbitrary: Y gr g)
  case Nil
  then show ?case by simp
next
  case (Cons y ys)
  obtain gr1 g1 where st: "break_row m (gr, g) y = (gr1, g1)" by (cases "break_row m (gr, g) y")
  from Cons.prems have "y \<notin> Y" by auto
  from visited_step [OF Cons.prems(1) this Cons.prems(4), of g] st
  have v1: "visited m gr0 (insert y Y) gr1" by simp
  from Cons.prems have "distinct ys" "set ys \<inter> insert y Y = {}" by auto
  from Cons.IH [OF v1 this Cons.prems(4), of g1] st show ?case by simp
qed

text \<open>
  Claim C10. On a grid with at least 3 reels \<open>breakAccidentalWins\<close> returns a grid
  with the same number of reels in which no row has one symbol other than the scatter
  symbol (\<open>math.scatterSymbol\<close>) on reels 0, 1 and 2. Where the input row has such a
  run, the cell of reel 2 is rewritten to a symbol different from the run's symbol; no
  other cell is changed. The replacement picker never returns the symbol it is told to
  avoid, also when its twenty draws fail and it falls back.
\<close>

theorem breakAccidentalWins_breaks_runs:
  assumes len: "3 \<le> length gr"
  shows "\<exists>gr' g'. breakAccidentalWins g m gr = (Inr gr', g')
           \<and> length gr' = length gr
           \<and> (\<forall>y s. s \<noteq> scatterSymbol m \<longrightarrow>
                 \<not> (cell gr' 0 y = Some s \<and> cell gr' 1 y = Some s \<and> cell gr' 2 y = Some s))
           \<and> (\<forall>y s. s \<noteq> scatterSymbol m \<and> cell gr 0 y = Some s \<and> cell gr 1 y = Some s
                   \<and> cell gr 2 y = Some s \<longrightarrow>
                 (\<exists>s'. cell gr' 2 y = Some s' \<and> s' \<noteq> s))
           \<and> (\<forall>r y. cell gr' r y \<noteq> cell gr r y \<longrightarrow> r = 2 \<and> run3 m gr y)
           \<and> (\<forall>g2 m2 x. fst (pickDifferentNonScatter g2 m2 x) \<noteq> x)"
proof -
  from len obtain col0 rest where gr: "gr = col0 # rest" by (cases gr) auto
  let ?st = "foldl (break_row m) (gr, g) [0..<length col0]"
  have b: "breakAccidentalWins g m gr = (Inr (fst ?st), snd ?st)"
    by (simp add: breakAccidentalWins_def gr Let_def)
  have "visited m gr {} gr" by (simp add: visited_def)
  from visited_fold [OF this, of "[0..<length col0]" g] len
  have v: "visited m gr {0..<length col0} (fst ?st)" by simp
  have out: "\<not> run3 m gr y" if "\<not> y < length col0" for y
    using that by (simp add: run3_def cell_def elem_at_def gr)
  from v have l: "length (fst ?st) = length gr"
    and same: "\<And>r y. (r = 2 \<and> y < length col0 \<and> run3 m gr y) \<or> cell (fst ?st) r y = cell gr r y"
    and dn: "\<And>y. y < length col0 \<Longrightarrow> run3 m gr y \<Longrightarrow>
                 cell (fst ?st) 2 y \<noteq> None \<and> cell (fst ?st) 2 y \<noteq> cell gr 0 y"
    by (auto simp: visited_def)
  have p1: "\<not> (cell (fst ?st) 0 y = Some s \<and> cell (fst ?st) 1 y = Some s \<and> cell (fst ?st) 2 y = Some s)"
    if "s \<noteq> scatterSymbol m" for y s
  proof (cases "run3 m gr y")
    case True
    with out [of y] have "y < length col0" by blast
    from dn [OF this True] same [of 0 y] show ?thesis by auto
  next
    case False
    with same [of 0 y] same [of 1 y] same [of 2 y] that show ?thesis
      by (auto simp: run3_def split: option.splits)
  qed
  have p2: "\<exists>s'. cell (fst ?st) 2 y = Some s' \<and> s' \<noteq> s"
    if "s \<noteq> scatterSymbol m \<and> cell gr 0 y = Some s \<and> cell gr 1 y = Some s \<and> cell gr 2 y = Some s"
    for y s
  proof -
    from that have r: "run3 m gr y" by (simp add: run3_def)
    with out [of y] have "y < length col0" by blast
    from dn [OF this r] that show ?thesis by auto
  qed
  have p3: "r = 2 \<and> run3 m gr y" if "cell (fst ?st) r y \<noteq> cell gr r y" for r y
    using same [of r y] that by blast
  have e1: "\<forall>y s. s \<noteq> scatterSymbol m \<longrightarrow>
                 \<not> (cell (fst ?st) 0 y = Some s \<and> cell (fst ?st) 1 y = Some s \<and> cell (fst ?st) 2 y = Some s)"
    using p1 by blast
  have e2: "\<forall>y s. s \<noteq> scatterSymbol m \<and> cell gr 0 y = Some s \<and> cell gr 1 y = Some s
                   \<and> cell gr 2 y = Some s \<longrightarrow>
                 (\<exists>s'. cell (fst ?st) 2 y = Some s' \<and> s' \<noteq> s)"
    using p2 by blast
  have e3: "\<forall>r y. cell (fst ?st) r y \<noteq> cell gr r y \<longrightarrow> r = 2 \<and> run3 m gr y"
    using p3 by blast
  have e4: "\<forall>g2 m2 x. fst (pickDifferentNonScatter g2 m2 x) \<noteq> x"
    using pickDifferentNonScatter_neq by blast
  show ?thesis
    by (rule exI [of _ "fst ?st"], rule exI [of _ "snd ?st"]) (intro conjI b l e1 e2 e3 e4)
qed

theorem breakAccidentalWins_breaks_runs_witness:
  "3 \<le> length grid_run
   \<and> cell grid_run 0 0 = Some K \<and> cell grid_run 1 0 = Some K \<and> cell grid_run 2 0 = Some K
   \<and> K \<noteq> scatterSymbol math0
   \<and> fst (breakAccidentalWins rng_half math0 grid_run)
       = Inr [[K, A, SCATTER], [K, Q, SCATTER], [J, J, SCATTER], [K, T, A], [A, A, A]]
   \<and> cell [[K, A, SCATTER], [K, Q, SCATTER], [J, J, SCATTER], [K, T, A], [A, A, A]] 2 0 \<noteq> Some K"
proof -
  let ?G = "[[K, A, SCATTER], [K, Q, SCATTER], [J, J, SCATTER], [K, T, A], [A, A, A]]"
  have h: "3 \<le> length grid_run" by code_simp
  have c: "cell grid_run 0 0 = Some K" "cell grid_run 1 0 = Some K" "cell grid_run 2 0 = Some K"
    by code_simp+
  have sc: "K \<noteq> scatterSymbol math0" by code_simp
  have v: "fst (breakAccidentalWins rng_half math0 grid_run) = Inr ?G" by code_simp
  from breakAccidentalWins_breaks_runs [OF h, where g = rng_half and m = math0] obtain gr' g' where
    r: "breakAccidentalWins rng_half math0 grid_run = (Inr gr', g')"
    and brk: "\<forall>y s. s \<noteq> scatterSymbol math0 \<and> cell grid_run 0 y = Some s \<and> cell grid_run 1 y = Some s
                   \<and> cell grid_run 2 y = Some s \<longrightarrow>
                 (\<exists>s'. cell gr' 2 y = Some s' \<and> s' \<noteq> s)"
    by (elim exE conjE) (rule that)
  from r v have g: "gr' = ?G" by simp
  from brk have "K \<noteq> scatterSymbol math0 \<and> cell grid_run 0 0 = Some K \<and> cell grid_run 1 0 = Some K
                   \<and> cell grid_run 2 0 = Some K \<longrightarrow> (\<exists>s'. cell gr' 2 0 = Some s' \<and> s' \<noteq> K)"
    by blast
  with sc c obtain s' where "cell gr' 2 0 = Some s'" "s' \<noteq> K" by blast
  then have n: "cell ?G 2 0 \<noteq> Some K" unfolding g by simp
  show ?thesis by (intro conjI h c sc v n)
qed

section \<open>The generator returns a grid\<close>

text \<open>
  With a positive number of reels below \<open>2^31\<close> no pass of the generator raises: a
  reel index drawn as \<open>(rng() * reels) | 0\<close> is a reel of the grid, and every pass keeps
  the numbers of reels and rows. So \<open>SlotModel.spin\<close> returns a grid of
  \<open>reels_count\<close> reels with \<open>reels_rows\<close> rows.
\<close>

lemma rng_call_range: "0 \<le> fst (rng_call g) \<and> fst (rng_call g) < 1"
  using Rep_unit01 [of "draws g (pos g)"] by (simp add: rng_call_def)

lemma bitor0_index:
  assumes "0 \<le> u" "u < 1" "0 < n" "n < 2 ^ 31"
  shows "0 \<le> bitor0 (u * real n) \<and> nat (bitor0 (u * real n)) < n"
proof -
  let ?t = "\<lfloor>u * real n\<rfloor>"
  have nn: "0 \<le> u * real n" using assms by simp
  then have t0: "0 \<le> ?t" by simp
  have "u * real n < real n" using assms by simp
  then have tn: "?t < int n" by (simp add: floor_less_iff)
  have "int n < 2 ^ 31" using assms(4) by (metis of_nat_less_iff of_nat_numeral of_nat_power)
  moreover have "(2::int) ^ 32 = 2 ^ 31 + 2 ^ 31" by simp
  ultimately have up: "?t + 2 ^ 31 < 2 ^ 32" using tn by linarith
  from t0 have lo: "0 \<le> ?t + 2 ^ 31" by (simp add: add_nonneg_nonneg)
  from lo up have "(?t + 2 ^ 31) mod 2 ^ 32 = ?t + 2 ^ 31"
    by (rule mod_pos_pos_trivial)
  then have b: "bitor0 (u * real n) = ?t" using nn by (simp add: bitor0_def Let_def)
  from t0 tn have "nat ?t < n" by linarith
  with b t0 show ?thesis by simp
qed

lemma draw_column_length: "length (fst (draw_column n g m)) = n"
proof (induction n arbitrary: g)
  case 0
  show ?case by simp
next
  case (Suc n)
  obtain s g1 where p: "pickWeightedSymbol g m = (s, g1)" by (cases "pickWeightedSymbol g m")
  obtain ss g2 where d: "draw_column n g1 m = (ss, g2)" by (cases "draw_column n g1 m")
  from Suc [of g1] d have "length ss = n" by simp
  with p d show ?case by simp
qed

lemma draw_columns_shape: "shape n k (fst (draw_columns n k g m))"
proof (induction n arbitrary: g)
  case 0
  show ?case by (simp add: shape_def)
next
  case (Suc n)
  obtain col g1 where c: "draw_column k g m = (col, g1)" by (cases "draw_column k g m")
  obtain cols g2 where cs: "draw_columns n k g1 m = (cols, g2)" by (cases "draw_columns n k g1 m")
  from draw_column_length [of k g m] c have "length col = k" by simp
  moreover from Suc [of g1] cs have "shape n k cols" by simp
  ultimately show ?case using c cs by (simp add: shape_def)
qed

lemma write_cell_shape: "shape n k gr \<Longrightarrow> shape n k (write_cell gr r y v)"
  by (auto simp: shape_def write_cell_def dest!: set_update_subset_insert [THEN subsetD])

lemma foldl_write_cell_shape:
  "shape n k gr \<Longrightarrow> shape n k (foldl (\<lambda>acc r. write_cell acc r y v) gr rs)"
  by (induction rs arbitrary: gr) (simp_all add: write_cell_shape)

lemma applyForcedWinLine_shape:
  assumes "shape n k gr" "0 < n"
  shows "\<exists>gr'. fst (applyForcedWinLine g m gr) = Inr gr' \<and> shape n k gr'"
proof -
  from assms obtain c cs where "gr = c # cs" by (cases gr) (auto simp: shape_def)
  with assms(1) show ?thesis
    by (auto simp: applyForcedWinLine_def Let_def split: prod.splits intro!: foldl_write_cell_shape)
qed

lemma update_cell_shape: "shape n k gr \<Longrightarrow> shape n k (gr[r := (gr ! r)[y := s]])"
proof (cases "r < length gr")
  case True
  assume "shape n k gr"
  with True show ?thesis
    by (auto simp: shape_def dest!: set_update_subset_insert [THEN subsetD])
next
  case False
  assume "shape n k gr"
  with False show ?thesis by (simp add: not_less list_update_beyond)
qed

lemma break_row_shape: "shape n k (fst st) \<Longrightarrow> shape n k (fst (break_row m st y))"
  by (auto simp: break_row_def Let_def update_cell_shape split: option.splits prod.splits)

lemma foldl_break_row_shape:
  "shape n k (fst st) \<Longrightarrow> shape n k (fst (foldl (break_row m) st ys))"
  by (induction ys arbitrary: st) (simp_all add: break_row_shape)

lemma breakAccidentalWins_shape:
  assumes "shape n k gr" "0 < n"
  shows "\<exists>gr'. fst (breakAccidentalWins g m gr) = Inr gr' \<and> shape n k gr'"
proof -
  from assms obtain c cs where "gr = c # cs" by (cases gr) (auto simp: shape_def)
  with assms(1) foldl_break_row_shape [of n k "(gr, g)" m] show ?thesis
    by (simp add: breakAccidentalWins_def Let_def)
qed

lemma forced_scatter_loop_shape:
  assumes "shape n k gr" "0 < n" "n < 2 ^ 31"
  shows "\<exists>gr'. fst (forced_scatter_loop budget m desired n nrows c gr g) = Inr gr' \<and> shape n k gr'"
  using assms(1)
proof (induction budget arbitrary: c gr g)
  case 0
  then show ?case by simp
next
  case (Suc budget)
  obtain u1 g1 where r1: "rng_call g = (u1, g1)" by (cases "rng_call g")
  obtain u2 g2 where r2: "rng_call g1 = (u2, g2)" by (cases "rng_call g1")
  from rng_call_range [of g] r1 have "0 \<le> u1" "u1 < 1" by simp_all
  from bitor0_index [OF this assms(2) assms(3)] Suc.prems
  have idx: "\<not> (bitor0 (u1 * real n) < 0 \<or> length gr \<le> nat (bitor0 (u1 * real n)))"
    by (auto simp: shape_def)
  show ?case
  proof (cases "real c < desired")
    case False
    with Suc.prems show ?thesis by simp
  next
    case True
    let ?r = "bitor0 (u1 * real n)"
    let ?y = "bitor0 (u2 * real nrows)"
    show ?thesis
    proof (cases "(if 0 \<le> ?y then cell gr (nat ?r) (nat ?y) else None) \<noteq> Some (scatterSymbol m)")
      case t: True
      from Suc.IH [OF write_cell_shape [OF Suc.prems], of "c + 1" "nat ?r" ?y "scatterSymbol m" g2]
      show ?thesis using True t idx r1 r2 by (simp add: Let_def)
    next
      case f: False
      from Suc.IH [OF Suc.prems, of c g2]
      show ?thesis using True f idx r1 r2 by (simp add: Let_def)
    qed
  qed
qed

lemma limit_scatter_loop_shape:
  assumes "shape n k gr" "0 < n" "n < 2 ^ 31"
  shows "\<exists>gr'. fst (limit_scatter_loop budget m limit n nrows c gr g) = Inr gr' \<and> shape n k gr'"
  using assms(1)
proof (induction budget arbitrary: c gr g)
  case 0
  then show ?case by simp
next
  case (Suc budget)
  obtain u1 g1 where r1: "rng_call g = (u1, g1)" by (cases "rng_call g")
  obtain u2 g2 where r2: "rng_call g1 = (u2, g2)" by (cases "rng_call g1")
  obtain s g3 where p: "pickDifferentNonScatter g2 m (scatterSymbol m) = (s, g3)"
    by (cases "pickDifferentNonScatter g2 m (scatterSymbol m)")
  from rng_call_range [of g] r1 have "0 \<le> u1" "u1 < 1" by simp_all
  from bitor0_index [OF this assms(2) assms(3)] Suc.prems
  have idx: "\<not> (bitor0 (u1 * real n) < 0 \<or> length gr \<le> nat (bitor0 (u1 * real n)))"
    by (auto simp: shape_def)
  show ?case
  proof (cases "real_of_int c \<ge> limit")
    case False
    with Suc.prems show ?thesis by simp
  next
    case True
    let ?r = "bitor0 (u1 * real n)"
    let ?y = "bitor0 (u2 * real nrows)"
    show ?thesis
    proof (cases "(if 0 \<le> ?y then cell gr (nat ?r) (nat ?y) else None) = Some (scatterSymbol m)")
      case t: True
      from Suc.IH [OF write_cell_shape [OF Suc.prems], of "c - 1" "nat ?r" ?y s g3]
      show ?thesis using True t idx r1 r2 p by (simp add: Let_def)
    next
      case f: False
      from Suc.IH [OF Suc.prems, of c g2]
      show ?thesis using True f idx r1 r2 by (simp add: Let_def)
    qed
  qed
qed

lemma applyForcedScatter_shape:
  assumes "shape n k gr" "0 < n" "n < 2 ^ 31"
  shows "\<exists>gr'. fst (applyForcedScatter g m gr desired) = Inr gr' \<and> shape n k gr'"
proof -
  from assms obtain c cs where gr: "gr = c # cs" by (cases gr) (auto simp: shape_def)
  from assms(1) have l: "length gr = n" by (simp add: shape_def)
  from forced_scatter_loop_shape [OF assms, of 200 m desired "length c" "countScatter gr (scatterSymbol m)" g]
  show ?thesis unfolding applyForcedScatter_def gr [symmetric] using gr l by (simp split: list.splits)
qed

lemma limitScatterBelow_shape:
  assumes "shape n k gr" "0 < n" "n < 2 ^ 31"
  shows "\<exists>gr'. fst (limitScatterBelow g m gr limit) = Inr gr' \<and> shape n k gr'"
proof -
  from assms obtain c cs where gr: "gr = c # cs" by (cases gr) (auto simp: shape_def)
  from assms(1) have l: "length gr = n" by (simp add: shape_def)
  from limit_scatter_loop_shape [OF assms, of 300 m limit "length c" "int (countScatter gr (scatterSymbol m))" g]
  show ?thesis unfolding limitScatterBelow_def gr [symmetric] using gr l assms(1)
    by (simp add: Let_def split: list.splits)
qed

lemma replicate_shape: "shape n k (replicate n (replicate k s))"
  by (simp add: shape_def)

lemma generateSpin_shape:
  assumes "0 < n" "n < 2 ^ 31"
  shows "\<exists>gen. fst (generateSpin g m n k ov) = Inr gen \<and> shape n k (grid gen)"
proof -
  let ?hr = "case ov of None \<Rightarrow> hitRate m
             | Some ov' \<Rightarrow> (case opt_hitRate ov' of None \<Rightarrow> hitRate m | Some v \<Rightarrow> v)"
  let ?bf = "case ov of None \<Rightarrow> bonusTargetFrequency m
             | Some ov' \<Rightarrow> (case opt_bonusTargetFrequency ov' of
                             None \<Rightarrow> bonusTargetFrequency m | Some v \<Rightarrow> v)"
  obtain fs g1 where e1: "flag_or_draw (qaForceBonus m) ?bf g = (fs, g1)"
    by (cases "flag_or_draw (qaForceBonus m) ?bf g")
  obtain fw g2 where e2: "flag_or_draw (qaForceWin m) ?hr g1 = (fw, g2)"
    by (cases "flag_or_draw (qaForceWin m) ?hr g1")
  obtain gr0 g3 where e3: "createWeightedGrid g2 m n k = (gr0, g3)"
    by (cases "createWeightedGrid g2 m n k")
  let ?gr1 = "case qaForceSymbol m of None \<Rightarrow> gr0 | Some s \<Rightarrow> replicate n (replicate k s)"
  have s1: "shape n k ?gr1"
    using draw_columns_shape [of n k g2 m] e3
    by (simp add: createWeightedGrid_def replicate_shape split: option.splits)
  let ?q = "if fw then applyForcedWinLine g3 m ?gr1 else breakAccidentalWins g3 m ?gr1"
  have "\<exists>gr2. fst ?q = Inr gr2 \<and> shape n k gr2"
    using applyForcedWinLine_shape [OF s1 assms(1), of g3 m]
      breakAccidentalWins_shape [OF s1 assms(1), of g3 m]
    by (cases fw) simp_all
  then obtain gr2 g4 where e4: "?q = (Inr gr2, g4)" and s2: "shape n k gr2"
    by (cases ?q) auto
  let ?q' = "if fs then applyForcedScatter g4 m gr2 (bonusTriggerCount m)
             else limitScatterBelow g4 m gr2 (bonusTriggerCount m)"
  have "\<exists>gr3. fst ?q' = Inr gr3 \<and> shape n k gr3"
    using applyForcedScatter_shape [OF s2 assms, of g4 m "bonusTriggerCount m"]
      limitScatterBelow_shape [OF s2 assms, of g4 m "bonusTriggerCount m"]
    by (cases fs) simp_all
  then obtain gr3 g5 where e5: "?q' = (Inr gr3, g5)" and s3: "shape n k gr3"
    by (cases ?q') auto
  have "generateSpin g m n k ov = (Inr \<lparr>grid = gr3, forcedWin = fw, forcedScatter = fs\<rparr>, g5)"
    unfolding generateSpin_def Let_def e1 prod.case e2 e3 e4 sum.case e5
    by simp
  with s3 show ?thesis by simp
qed

lemma spin_returns_grid:
  "\<exists>gr. fst (spin m opts) = Inr gr \<and> shape reels_count reels_rows gr"
proof -
  have "0 < reels_count" "reels_count < 2 ^ 31" by (simp_all add: reels_count_def)
  from generateSpin_shape [OF this, of "rng m" "math m" reels_rows opts]
  show ?thesis by (auto simp: spin_def split: prod.splits sum.splits)
qed

section \<open>Hold-aware composition\<close>

lemma copy_held_result:
  assumes "distinct rs"
    and "\<forall>r \<in> set rs. r < length next \<and> (elem_at held r = Some True \<longrightarrow> r < length prev)"
    and "\<forall>a \<in> set prev. a < length h0" and "length h0 \<le> length h"
  shows "\<exists>next' new.
           copy_held rs prev held next h = (Inr next', h @ new)
           \<and> length next' = length next
           \<and> (\<forall>r < length next.
                 if r \<in> set rs \<and> elem_at held r = Some True
                 then length h \<le> next' ! r \<and> next' ! r < length (h @ new)
                      \<and> (h @ new) ! (next' ! r) = h ! (prev ! r)
                 else next' ! r = next ! r)
           \<and> (\<forall>r < length next. \<forall>r' < length next.
                 r \<in> set rs \<and> elem_at held r = Some True \<and> r' \<in> set rs \<and> elem_at held r' = Some True
                 \<and> r \<noteq> r' \<longrightarrow> next' ! r \<noteq> next' ! r')"
  using assms
proof (induction rs arbitrary: "next" h)
  case Nil
  show ?case by (intro exI [of _ "next"] exI [of _ "[]"]) simp
next
  case (Cons r rs)
  from Cons.prems have d: "distinct rs" and rn: "r \<notin> set rs" and rl: "r < length next"
    and rest: "\<forall>r' \<in> set rs. r' < length next \<and> (elem_at held r' = Some True \<longrightarrow> r' < length prev)"
    by auto
  show ?case
  proof (cases "elem_at held r = Some True")
    case False
    from Cons.IH [OF d rest Cons.prems(3) Cons.prems(4)] obtain next' new where
      ih: "copy_held rs prev held next h = (Inr next', h @ new)" "length next' = length next"
        "\<forall>r < length next.
                 if r \<in> set rs \<and> elem_at held r = Some True
                 then length h \<le> next' ! r \<and> next' ! r < length (h @ new)
                      \<and> (h @ new) ! (next' ! r) = h ! (prev ! r)
                 else next' ! r = next ! r"
        "\<forall>r < length next. \<forall>r' < length next.
                 r \<in> set rs \<and> elem_at held r = Some True \<and> r' \<in> set rs \<and> elem_at held r' = Some True
                 \<and> r \<noteq> r' \<longrightarrow> next' ! r \<noteq> next' ! r'"
      by blast
    have e: "copy_held (r # rs) prev held next h = (Inr next', h @ new)"
      using False ih(1) by simp
    have p3': "\<forall>r' < length next.
                 if r' \<in> set (r # rs) \<and> elem_at held r' = Some True
                 then length h \<le> next' ! r' \<and> next' ! r' < length (h @ new)
                      \<and> (h @ new) ! (next' ! r') = h ! (prev ! r')
                 else next' ! r' = next ! r'"
      using ih(3) False by auto
    have p4': "\<forall>r' < length next. \<forall>r'' < length next.
                 r' \<in> set (r # rs) \<and> elem_at held r' = Some True \<and> r'' \<in> set (r # rs)
                 \<and> elem_at held r'' = Some True \<and> r' \<noteq> r'' \<longrightarrow> next' ! r' \<noteq> next' ! r''"
      using ih(4) False by auto
    show ?thesis
      by (rule exI [of _ next'], rule exI [of _ new]) (intro conjI e ih(2) p3' p4')
  next
    case True
    with Cons.prems have rp: "r < length prev" by auto
    with Cons.prems(3) have pa: "prev ! r < length h0" by simp
    let ?a = "prev ! r"
    let ?h1 = "h @ [h ! ?a]"
    let ?n1 = "next[r := length h]"
    have rest1: "\<forall>r' \<in> set rs. r' < length ?n1 \<and> (elem_at held r' = Some True \<longrightarrow> r' < length prev)"
      using rest by simp
    have h1: "length h0 \<le> length ?h1" using Cons.prems(4) by simp
    from Cons.IH [OF d rest1 Cons.prems(3) h1] obtain next' new where
      ih: "copy_held rs prev held ?n1 ?h1 = (Inr next', ?h1 @ new)" "length next' = length ?n1"
      and ih3: "\<And>r'. r' < length ?n1 \<Longrightarrow>
                 (if r' \<in> set rs \<and> elem_at held r' = Some True
                 then length ?h1 \<le> next' ! r' \<and> next' ! r' < length (?h1 @ new)
                      \<and> (?h1 @ new) ! (next' ! r') = ?h1 ! (prev ! r')
                 else next' ! r' = ?n1 ! r')"
      and ih4: "\<And>r' r''. r' < length ?n1 \<Longrightarrow> r'' < length ?n1 \<Longrightarrow>
                 r' \<in> set rs \<and> elem_at held r' = Some True \<and> r'' \<in> set rs \<and> elem_at held r'' = Some True
                 \<and> r' \<noteq> r'' \<Longrightarrow> next' ! r' \<noteq> next' ! r''"
      by blast
    have step: "copy_held (r # rs) prev held next h = copy_held rs prev held ?n1 ?h1"
      using True rp by (simp add: elem_at_def alloc_def)
    have nr: "next' ! r = length h"
      using ih3 [of r] rn rl by simp
    have old: "?h1 ! (prev ! r') = h ! (prev ! r')" if "r' < length prev" for r'
    proof -
      from that Cons.prems(3) have "prev ! r' < length h0" by simp
      with Cons.prems(4) show ?thesis by (simp add: nth_append)
    qed
    have p3: "if r' \<in> set (r # rs) \<and> elem_at held r' = Some True
                 then length h \<le> next' ! r' \<and> next' ! r' < length (h @ ([h ! ?a] @ new))
                      \<and> (h @ ([h ! ?a] @ new)) ! (next' ! r') = h ! (prev ! r')
                 else next' ! r' = next ! r'" if r': "r' < length next" for r'
    proof (cases "r' = r")
      case True
      with nr \<open>elem_at held r = Some True\<close> show ?thesis by (simp add: nth_append)
    next
      case False
      show ?thesis
      proof (cases "r' \<in> set rs \<and> elem_at held r' = Some True")
        case True
        with rest have "r' < length prev" by auto
        from old [OF this] ih3 [of r'] r' True show ?thesis by auto
      next
        case f: False
        with ih3 [of r'] r' False show ?thesis by auto
      qed
    qed
    have p4: "next' ! r' \<noteq> next' ! r''"
      if l1: "r' < length next" and l2: "r'' < length next"
        and c: "r' \<in> set (r # rs) \<and> elem_at held r' = Some True \<and> r'' \<in> set (r # rs) \<and> elem_at held r'' = Some True \<and> r' \<noteq> r''"
      for r' r''
    proof -
      consider "r' = r" "r'' \<in> set rs" | "r'' = r" "r' \<in> set rs" | "r' \<in> set rs" "r'' \<in> set rs"
        using c by auto
      then show ?thesis
      proof cases
        case 1
        with ih3 [of r''] l1 l2 c nr show ?thesis by auto
      next
        case 2
        with ih3 [of r'] l1 l2 c nr show ?thesis by auto
      next
        case 3
        with ih4 [of r' r''] l1 l2 c show ?thesis by simp
      qed
    qed
    have e: "copy_held (r # rs) prev held next h = (Inr next', h @ ([h ! ?a] @ new))"
      using step ih(1) by simp
    have len: "length next' = length next" using ih(2) by simp
    from p3 have p3': "\<forall>r' < length next.
                 if r' \<in> set (r # rs) \<and> elem_at held r' = Some True
                 then length h \<le> next' ! r' \<and> next' ! r' < length (h @ ([h ! ?a] @ new))
                      \<and> (h @ ([h ! ?a] @ new)) ! (next' ! r') = h ! (prev ! r')
                 else next' ! r' = next ! r'" by blast
    from p4 have p4': "\<forall>r' < length next. \<forall>r'' < length next.
                 r' \<in> set (r # rs) \<and> elem_at held r' = Some True \<and> r'' \<in> set (r # rs)
                 \<and> elem_at held r'' = Some True \<and> r' \<noteq> r'' \<longrightarrow> next' ! r' \<noteq> next' ! r''"
      by blast
    show ?thesis
      by (rule exI [of _ next'], rule exI [of _ "[h ! ?a] @ new"]) (intro conjI e len p3' p4')
  qed
qed

lemma spinGrid_model: "fst (snd (spinGrid m h p hm opts)) = snd (spin m opts)"
proof (cases "spin m opts")
  case (Pair res m')
  show ?thesis
  proof (cases res)
    case (Inl e)
    with Pair show ?thesis by (simp add: spinGrid_def)
  next
    case (Inr gr)
    with Pair show ?thesis
      by (simp add: spinGrid_def Let_def split: prod.splits option.splits)
  qed
qed

lemma spinGrid_no_previous:
  "spin m opts = (Inr gr, m') \<Longrightarrow>
   spinGrid m h None hm opts = (Inr [length h..<length h + length gr], m', h @ gr)"
  by (simp add: spinGrid_def alloc_grid_def)

lemma spinGrid_no_mask:
  "spin m opts = (Inr gr, m') \<Longrightarrow>
   spinGrid m h p None opts = (Inr [length h..<length h + length gr], m', h @ gr)"
  by (simp add: spinGrid_def alloc_grid_def split: option.splits)

lemma deref_alloc_grid: "deref (h @ gr) [length h..<length h + length gr] = gr"
  by (rule nth_equalityI) (simp_all add: deref_def nth_append)

lemma spinGrid_composes_given_grid:
  assumes gen: "spin m opts = (Inr gr, m')"
    and alloc: "\<forall>a \<in> set prev. a < length h"
    and cols: "\<forall>r < length gr. elem_at held r = Some True \<longrightarrow> r < length prev"
  shows "(\<exists>next h'. spinGrid m h (Some prev) (Some held) opts = (Inr next, m', h')
            \<and> length next = length gr
            \<and> (\<forall>r < length gr.
                  if elem_at held r = Some True
                  then h' ! (next ! r) = h ! (prev ! r) \<and> length h \<le> next ! r \<and> next ! r \<notin> set prev
                  else h' ! (next ! r) = gr ! r)
            \<and> distinct next
            \<and> (\<forall>a < length h. h' ! a = h ! a))
         \<and> (\<forall>hm. spinGrid m h None hm opts = (Inr [length h..<length h + length gr], m', h @ gr))
         \<and> (\<forall>p. spinGrid m h p None opts = (Inr [length h..<length h + length gr], m', h @ gr))
         \<and> deref (h @ gr) [length h..<length h + length gr] = gr
         \<and> (\<forall>p hm. fst (snd (spinGrid m h p hm opts)) = snd (spin m opts))"
proof -
  let ?n0 = "[length h..<length h + length gr]"
  let ?h1 = "h @ gr"
  have d: "distinct [0..<length ?n0]" by simp
  have pre: "\<forall>r \<in> set [0..<length ?n0]. r < length ?n0 \<and> (elem_at held r = Some True \<longrightarrow> r < length prev)"
    using cols by simp
  have le: "length h \<le> length ?h1" by simp
  from copy_held_result [OF d pre alloc le] obtain next' new where
    raw: "copy_held [0..<length ?n0] prev held ?n0 ?h1 = (Inr next', ?h1 @ new)"
      "length next' = length ?n0"
      "\<forall>r < length ?n0.
                 if r \<in> set [0..<length ?n0] \<and> elem_at held r = Some True
                 then length ?h1 \<le> next' ! r \<and> next' ! r < length (?h1 @ new)
                      \<and> (?h1 @ new) ! (next' ! r) = ?h1 ! (prev ! r)
                 else next' ! r = ?n0 ! r"
      "\<forall>r < length ?n0. \<forall>r' < length ?n0.
                 r \<in> set [0..<length ?n0] \<and> elem_at held r = Some True \<and> r' \<in> set [0..<length ?n0]
                 \<and> elem_at held r' = Some True \<and> r \<noteq> r' \<longrightarrow> next' ! r \<noteq> next' ! r'"
    by blast
  have c: "copy_held [0..<length ?n0] prev held ?n0 ?h1 = (Inr next', ?h1 @ new)"
    by (rule raw(1))
  have l: "length next' = length gr" using raw(2) by simp
  have c3: "if elem_at held r = Some True
            then length ?h1 \<le> next' ! r \<and> next' ! r < length (?h1 @ new)
                 \<and> (?h1 @ new) ! (next' ! r) = ?h1 ! (prev ! r)
            else next' ! r = ?n0 ! r" if "r < length gr" for r
    using raw(3) [rule_format, of r] that by simp
  have c4: "next' ! r \<noteq> next' ! r'"
    if "r < length gr" "r' < length gr"
      "elem_at held r = Some True \<and> elem_at held r' = Some True \<and> r \<noteq> r'" for r r'
    using raw(4) [rule_format, of r r'] that by simp
  have sg: "spinGrid m h (Some prev) (Some held) opts = (Inr next', m', ?h1 @ new)"
    using gen c by (simp add: spinGrid_def alloc_grid_def)
  have pa: "prev ! r < length h" if "elem_at held r = Some True" "r < length gr" for r
    using that cols alloc by auto
  have col: "if elem_at held r = Some True
             then (?h1 @ new) ! (next' ! r) = h ! (prev ! r) \<and> length h \<le> next' ! r \<and> next' ! r \<notin> set prev
             else (?h1 @ new) ! (next' ! r) = gr ! r" if r: "r < length gr" for r
  proof (cases "elem_at held r = Some True")
    case True
    from c3 [OF r] True have f: "length ?h1 \<le> next' ! r" "(?h1 @ new) ! (next' ! r) = ?h1 ! (prev ! r)"
      by auto
    from pa [OF True r] have "?h1 ! (prev ! r) = h ! (prev ! r)" by (simp add: nth_append)
    moreover from f(1) alloc have "next' ! r \<notin> set prev" by auto
    ultimately show ?thesis using True f by simp
  next
    case False
    with c3 [OF r] r have "next' ! r = length h + r" by simp
    with False r show ?thesis by (simp add: nth_append)
  qed
  have dist: "distinct next'"
    unfolding distinct_conv_nth
  proof (intro allI impI)
    fix i j assume i: "i < length next'" and j: "j < length next'" and ne: "i \<noteq> j"
    from i j l have ig: "i < length gr" and jg: "j < length gr" by simp_all
    show "next' ! i \<noteq> next' ! j"
    proof (cases "elem_at held i = Some True")
      case hi: True
      show ?thesis
      proof (cases "elem_at held j = Some True")
        case True
        with c4 [OF ig jg] hi ne show ?thesis by simp
      next
        case False
        with c3 [OF ig] c3 [OF jg] hi jg show ?thesis by simp
      qed
    next
      case hi: False
      show ?thesis
      proof (cases "elem_at held j = Some True")
        case True
        with c3 [OF ig] c3 [OF jg] hi ig show ?thesis by simp
      next
        case False
        with c3 [OF ig] c3 [OF jg] hi ig jg ne show ?thesis by simp
      qed
    qed
  qed
  have keep: "\<forall>a < length h. (?h1 @ new) ! a = h ! a"
    by (simp add: nth_append)
  have first: "\<exists>next h'. spinGrid m h (Some prev) (Some held) opts = (Inr next, m', h')
            \<and> length next = length gr
            \<and> (\<forall>r < length gr.
                  if elem_at held r = Some True
                  then h' ! (next ! r) = h ! (prev ! r) \<and> length h \<le> next ! r \<and> next ! r \<notin> set prev
                  else h' ! (next ! r) = gr ! r)
            \<and> distinct next
            \<and> (\<forall>a < length h. h' ! a = h ! a)"
    using sg l col dist keep by blast
  from first spinGrid_no_previous [OF gen] spinGrid_no_mask [OF gen] deref_alloc_grid spinGrid_model
  show ?thesis by blast
qed

text \<open>
  Claim C5. Let every column address of the previous grid be allocated, and let every
  held reel have a column in the previous grid (\<open>previousGrid[r].slice()\<close> raises on
  a reel the previous grid does not have). The generator runs first and returns a grid
  \<open>gr\<close> of \<open>reels_count\<close> reels and the model \<open>m'\<close>. With a previous grid and a
  mask, \<open>spinGrid\<close> returns a grid of as many reels: a held reel is a newly allocated
  array (its address is not in the store before the call, so it is no column of the
  previous grid) with the cells of the previous grid's column, every other reel holds
  the generated column; the columns are pairwise different arrays and the arrays of the
  store before the call are unchanged. Without a previous grid or without a mask the
  generated grid is returned as it is. In every case the model after the call is
  \<open>m'\<close>, the model after the generator's run.
\<close>

theorem spinGrid_composes_held_columns:
  assumes alloc: "\<forall>a \<in> set prev. a < length h"
    and cols: "\<forall>r < reels_count. elem_at held r = Some True \<longrightarrow> r < length prev"
  shows "\<exists>gr m'. spin m opts = (Inr gr, m') \<and> length gr = reels_count
           \<and> (\<exists>next h'. spinGrid m h (Some prev) (Some held) opts = (Inr next, m', h')
                \<and> length next = length gr
                \<and> (\<forall>r < length gr.
                      if elem_at held r = Some True
                      then h' ! (next ! r) = h ! (prev ! r) \<and> length h \<le> next ! r
                           \<and> next ! r \<notin> set prev
                      else h' ! (next ! r) = gr ! r)
                \<and> distinct next
                \<and> (\<forall>a < length h. h' ! a = h ! a))
           \<and> (\<forall>hm. spinGrid m h None hm opts = (Inr [length h..<length h + length gr], m', h @ gr))
           \<and> (\<forall>p. spinGrid m h p None opts = (Inr [length h..<length h + length gr], m', h @ gr))
           \<and> deref (h @ gr) [length h..<length h + length gr] = gr
           \<and> (\<forall>p hm. fst (snd (spinGrid m h p hm opts)) = m')"
proof -
  from spin_returns_grid [of m opts] obtain gr where
    f: "fst (spin m opts) = Inr gr" and sh: "shape reels_count reels_rows gr"
    by blast
  from sh have len: "length gr = reels_count" by (simp add: shape_def)
  from f have gen: "spin m opts = (Inr gr, snd (spin m opts))"
    by (cases "spin m opts") simp
  from cols len have cols': "\<forall>r < length gr. elem_at held r = Some True \<longrightarrow> r < length prev"
    by simp
  from spinGrid_composes_given_grid [OF gen alloc cols'] gen len show ?thesis
    by (intro exI [of _ gr] exI [of _ "snd (spin m opts)"]) simp
qed

theorem spinGrid_composes_held_columns_witness:
  "fst (spin model1 None) = Inr [[J, J, J], [A, A, A], [J, J, J], [J, J, J], [J, J, J]]
   \<and> fst (spinGrid model1 heap1 (Some gref1) (Some [True, False, False, False, False]) None)
       = Inr [10, 6, 7, 8, 9]
   \<and> deref (snd (snd (spinGrid model1 heap1 (Some gref1) (Some [True, False, False, False, False]) None)))
         [10, 6, 7, 8, 9]
       = [[WILD, K, Q], [A, A, A], [J, J, J], [J, J, J], [J, J, J]]
   \<and> deref (snd (snd (spinGrid model1 heap1 (Some gref1) (Some [True, False, False, False, False]) None)))
         gref1
       = heap1
   \<and> fst (snd (spinGrid model1 heap1 (Some gref1) (Some [True, False, False, False, False]) None))
       = snd (spin model1 None)
   \<and> fst (snd (spinGrid model1 heap1 None None None)) = snd (spin model1 None)
   \<and> pos (rng (snd (spin model1 None))) = 17"
proof -
  let ?mask = "[True, False, False, False, False]"
  have f: "fst (spin model1 None) = Inr [[J, J, J], [A, A, A], [J, J, J], [J, J, J], [J, J, J]]"
    by code_simp
  have al: "\<forall>a \<in> set gref1. a < length heap1" by code_simp
  have cols: "\<forall>r < reels_count. elem_at ?mask r = Some True \<longrightarrow> r < length gref1"
    by (simp add: gref1_def reels_count_def)
  have v1: "fst (spinGrid model1 heap1 (Some gref1) (Some ?mask) None) = Inr [10, 6, 7, 8, 9]"
    by code_simp
  have v2: "deref (snd (snd (spinGrid model1 heap1 (Some gref1) (Some ?mask) None))) [10, 6, 7, 8, 9]
       = [[WILD, K, Q], [A, A, A], [J, J, J], [J, J, J], [J, J, J]]"
    by code_simp
  have v3: "deref (snd (snd (spinGrid model1 heap1 (Some gref1) (Some ?mask) None))) gref1 = heap1"
    by code_simp
  have v4: "pos (rng (snd (spin model1 None))) = 17" by code_simp
  from spinGrid_composes_held_columns [OF al cols, of model1 None] obtain gr m' where
    g: "spin model1 None = (Inr gr, m')"
    and md: "\<forall>p hm. fst (snd (spinGrid model1 heap1 p hm None)) = m'"
    by (elim exE conjE) (rule that)
  from g have "m' = snd (spin model1 None)" by simp
  with md have "fst (snd (spinGrid model1 heap1 (Some gref1) (Some ?mask) None)) = snd (spin model1 None)"
    "fst (snd (spinGrid model1 heap1 None None None)) = snd (spin model1 None)"
    by simp_all
  with f v1 v2 v3 v4 show ?thesis by simp
qed

section \<open>Resolver: weights and bet bounds\<close>







end
